theory Spec2Isabelle
  imports Complex_Main "HOL-Library.Sublist"
begin

section \<open>Strings\<close>

text \<open>
  A JavaScript string is modelled as an Isabelle \<open>string\<close>, one \<open>char\<close> per code unit, for
  strings whose code units are below 256 (ASCII and Latin-1). \<open>length\<close> is then the
  \<open>.length\<close> of the source.

  \<open>toLowerCase\<close> maps \<open>A\<close>..\<open>Z\<close> and the Latin-1 capitals (192..222 without the
  multiplication sign 215) to the letter 32 code units further; every other code unit
  below 256 is its own lower case.
\<close>

definition toLowerCase_char :: "char \<Rightarrow> char" where
  "toLowerCase_char c =
     (let n = (of_char c :: nat)
      in if (65 \<le> n \<and> n \<le> 90) \<or> (192 \<le> n \<and> n \<le> 222 \<and> n \<noteq> 215)
         then char_of (n + 32) else c)"

definition toLowerCase :: "string \<Rightarrow> string" where
  "toLowerCase s = map toLowerCase_char s"

text \<open>The regular-expression class \<open>\w\<close> is \<open>[A-Za-z0-9_]\<close>.\<close>

definition is_word_char :: "char \<Rightarrow> bool" where
  "is_word_char c =
     (let n = (of_char c :: nat)
      in (48 \<le> n \<and> n \<le> 57) \<or> (65 \<le> n \<and> n \<le> 90) \<or> n = 95 \<or> (97 \<le> n \<and> n \<le> 122))"

text \<open>
  The class \<open>\s\<close> below 256: tab, line feed, vertical tab, form feed, carriage return,
  space and the no-break space.
\<close>

definition is_space_char :: "char \<Rightarrow> bool" where
  "is_space_char c = ((of_char c :: nat) \<in> {9, 10, 11, 12, 13, 32, 160})"

text \<open>
  \<open>s.split(/\s+/)\<close>: the pieces of \<open>s\<close> between maximal runs of white space. As in
  JavaScript, a string that starts or ends with white space yields an empty first or last
  piece, and the empty string yields one empty piece.
\<close>

function split_ws :: "string \<Rightarrow> string list" where
  "split_ws [] = [[]]"
| "split_ws (c # cs) =
     (if is_space_char c then [] # split_ws (dropWhile is_space_char cs)
      else (case split_ws cs of [] \<Rightarrow> [[c]] | w # ws \<Rightarrow> (c # w) # ws))"
  by pat_completeness auto
termination
  by (relation "measure length") (auto simp: length_dropWhile_le less_Suc_eq_le)

text \<open>\<open>s.includes(p)\<close>: \<open>p\<close> occurs in \<open>s\<close> as a contiguous substring.\<close>

fun includes_str :: "string \<Rightarrow> string \<Rightarrow> bool" where
  "includes_str [] p = (p = [])"
| "includes_str (c # cs) p = (take (length p) (c # cs) = p \<or> includes_str cs p)"

text \<open>\<open>xs.join(sep)\<close>.\<close>

fun join :: "string \<Rightarrow> string list \<Rightarrow> string" where
  "join sep [] = []"
| "join sep [x] = x"
| "join sep (x # y # ys) = x @ sep @ join sep (y # ys)"

text \<open>
  \<open>[...new Set(xs)]\<close>: a \<open>Set\<close> keeps its elements in the order of their first insertion,
  and inserting an element it already has changes nothing.
\<close>

definition Set_add :: "'a list \<Rightarrow> 'a \<Rightarrow> 'a list" where
  "Set_add s x = (if x \<in> set s then s else s @ [x])"

definition new_Set :: "'a list \<Rightarrow> 'a list" where
  "new_Set xs = foldl Set_add [] xs"

text \<open>
  \<open>xs.slice(0, end)\<close> for an integral \<open>end\<close>: a negative \<open>end\<close> counts from the end of
  the array.
\<close>

definition slice0 :: "int \<Rightarrow> 'a list \<Rightarrow> 'a list" where
  "slice0 e xs =
     (if e < 0 then take (nat (int (length xs) + e)) xs else take (nat e) xs)"

section \<open>Key terms of a query\<close>

definition stopWords :: "string list" where
  "stopWords =
     [''the'', ''a'', ''an'', ''is'', ''are'', ''was'', ''were'', ''be'', ''been'', ''being'',
      ''have'', ''has'', ''had'', ''do'', ''does'', ''did'', ''will'', ''would'', ''could'', ''should'',
      ''may'', ''might'', ''must'', ''shall'', ''can'', ''need'', ''dare'', ''ought'', ''used'',
      ''what'', ''which'', ''who'', ''whom'', ''this'', ''that'', ''these'', ''those'', ''am'',
      ''your'', ''you'', ''how'', ''much'', ''many'', ''po'', ''ba'', ''na'', ''ng'', ''sa'', ''ang'',
      ''yung'', ''mo'', ''ko'', ''nyo'', ''nila'', ''ka'', ''ako'', ''siya'', ''kami'', ''tayo'', ''sila'',
      ''magkano'', ''ano'', ''paano'', ''saan'', ''kailan'', ''bakit'', ''ilan'']"

text \<open>
  \<open>replace(/[^\w\s]/g, '')\<close> deletes every character that is neither a word character
  nor white space; \<open>query_words\<close> is the \<open>words\<close> array of the source before the filter.
\<close>

definition query_words :: "string \<Rightarrow> string list" where
  "query_words query =
     split_ws (filter (\<lambda>c. is_word_char c \<or> is_space_char c) (toLowerCase query))"

definition extractKeyTerms :: "string \<Rightarrow> string list" where
  "extractKeyTerms query =
     (let words = filter (\<lambda>word. length word > 2 \<and> word \<notin> set stopWords) (query_words query)
      in take 5 (new_Set words))"

section \<open>Question variations\<close>

definition pricing_phrases :: "string list" where
  "pricing_phrases = [''What is the price?'', ''How much does it cost?'', ''Magkano?'']"

definition product_phrases :: "string list" where
  "product_phrases = [''What products do you have?'', ''Tell me about your products'']"

definition delivery_phrases :: "string list" where
  "delivery_phrases = [''Do you deliver?'', ''How much is shipping?'', ''Nagdedeliver ba kayo?'']"

definition payment_phrases :: "string list" where
  "payment_phrases = [''What payment methods do you accept?'', ''How can I pay?'']"

definition generateQuestionVariations :: "string \<Rightarrow> string list" where
  "generateQuestionVariations query =
     (let variations = [];
          lowerQuery = toLowerCase query;
          variations =
            (if includes_str lowerQuery ''price'' \<or> includes_str lowerQuery ''cost''
                \<or> includes_str lowerQuery ''magkano'' \<or> includes_str lowerQuery ''presyo''
             then variations @ [''What is the price?'', ''How much does it cost?'', ''Magkano?'']
             else variations);
          variations =
            (if includes_str lowerQuery ''product'' \<or> includes_str lowerQuery ''produkto''
                \<or> includes_str lowerQuery ''item''
             then variations @ [''What products do you have?'', ''Tell me about your products'']
             else variations);
          variations =
            (if includes_str lowerQuery ''deliver'' \<or> includes_str lowerQuery ''shipping''
                \<or> includes_str lowerQuery ''padala''
             then variations @ [''Do you deliver?'', ''How much is shipping?'', ''Nagdedeliver ba kayo?'']
             else variations);
          variations =
            (if includes_str lowerQuery ''pay'' \<or> includes_str lowerQuery ''bayad''
                \<or> includes_str lowerQuery ''gcash'' \<or> includes_str lowerQuery ''bank''
             then variations @ [''What payment methods do you accept?'', ''How can I pay?'']
             else variations)
      in variations)"

section \<open>Data model\<close>

text \<open>
  Embeddings and similarities are JavaScript numbers. The code never computes with them:
  it passes embeddings on and compares similarities, so a finite number is modelled as the
  rational it denotes; the literals \<open>0.30\<close> and \<open>0.5\<close> are written \<open>3 / 10\<close> and
  \<open>1 / 2\<close>. An absent (\<open>undefined\<close> or \<open>null\<close>) field is \<open>None\<close>; a similarity that
  is not a number is falsy in \<open>doc.similarity || 0\<close> and is modelled as absent too. The
  parameter \<open>limit\<close> is modelled for the integral numbers. Metadata objects are
  modelled with string values; \<open>{...a, ...b}\<close> is \<open>a ++ b\<close>.
\<close>

type_synonym embedding = "rat list"

type_synonym metadata = "string \<rightharpoonup> string"

datatype input_type = Query | Passage

datatype match_type = Semantic | Keyword | Variation

record doc =
  id_doc :: nat
  content :: string
  metadata :: metadata
  similarity :: "rat option"

record hit = doc +
  matchType :: match_type

record chunk =
  pageContent :: string
  metadata_chunk :: metadata

record row =
  content_row :: string
  metadata_row :: metadata
  embedding :: embedding
  category_id :: "string option"

text \<open>The error object of a store response; \<open>message\<close> may be absent.\<close>

record pg_error =
  message :: "string option"

text \<open>The \<open>{data, error}\<close> pair that a store query resolves to.\<close>

record response =
  data :: "doc list option"
  error :: "pg_error option"

text \<open>
  What \<open>fetch\<close> gives \<open>getEmbedding\<close>: the promise is rejected, or there is a response
  with its \<open>ok\<close> flag, its status, its body text, and the value of
  \<open>data.data[0].embedding\<close> of its JSON body: \<open>None\<close> when reading it throws (the body
  is no JSON, or has no \<open>data[0]\<close>). A body whose first entry has no embedding, for
  which the function would return \<open>undefined\<close>, is outside the model.
\<close>

datatype fetch_result =
    Rejected string
  | Response bool nat string "embedding option"

text \<open>The values the code throws.\<close>

datatype exn =
    Fetch_rejected string
  | Embedding_API_error nat string
  | Malformed_payload
  | Insert_error pg_error
  | Type_error

section \<open>The external services\<close>

text \<open>
  The embedding provider, the store and the text splitter are not part of the program.
  Each call to the provider or the store may depend on, and change, the state \<open>'w\<close> of
  the world outside; the splitter is a library function from the chunk size, the overlap
  and the text to the chunks. The store client reports failures in the \<open>error\<close> field
  of its response and does not throw.
\<close>

record 'w services =
  fetch_embeddings :: "string \<Rightarrow> input_type \<Rightarrow> 'w \<Rightarrow> fetch_result \<times> 'w"
  rpc_match_documents :: "embedding \<Rightarrow> rat \<Rightarrow> int \<Rightarrow> 'w \<Rightarrow> response \<times> 'w"
  select_documents :: "string \<Rightarrow> int \<Rightarrow> 'w \<Rightarrow> response \<times> 'w"
  insert_documents :: "row \<Rightarrow> 'w \<Rightarrow> pg_error option \<times> 'w"
  createDocuments :: "nat \<Rightarrow> nat \<Rightarrow> string \<Rightarrow> chunk list"

text \<open>
  A run records every external call it makes, with the arguments the code passed and the
  answer it got, in the order of the calls.
\<close>

datatype call =
    Fetch string input_type fetch_result
  | Rpc embedding rat int response
  | Select string int response
  | Insert row "pg_error option"

record 'w state =
  world :: 'w
  calls :: "call list"

definition getEmbedding ::
  "'w services \<Rightarrow> string \<Rightarrow> input_type \<Rightarrow> 'w state \<Rightarrow> (exn + embedding) \<times> 'w state" where
  "getEmbedding sv txt inputType st =
     (let (response, w) = fetch_embeddings sv txt inputType (world st);
          st' = \<lparr>world = w, calls = calls st @ [Fetch txt inputType response]\<rparr>
      in case response of
           Rejected msg \<Rightarrow> (Inl (Fetch_rejected msg), st')
         | Response ok status errorText payload \<Rightarrow>
             if \<not> ok then (Inl (Embedding_API_error status errorText), st')
             else (case payload of
                     None \<Rightarrow> (Inl Malformed_payload, st')
                   | Some e \<Rightarrow> (Inr e, st')))"

definition rpc ::
  "'w services \<Rightarrow> embedding \<Rightarrow> rat \<Rightarrow> int \<Rightarrow> 'w state \<Rightarrow> response \<times> 'w state" where
  "rpc sv query_embedding match_threshold match_count st =
     (let (r, w) = rpc_match_documents sv query_embedding match_threshold match_count (world st)
      in (r, \<lparr>world = w,
               calls = calls st @ [Rpc query_embedding match_threshold match_count r]\<rparr>))"

definition select_or ::
  "'w services \<Rightarrow> string \<Rightarrow> int \<Rightarrow> 'w state \<Rightarrow> response \<times> 'w state" where
  "select_or sv filters count st =
     (let (r, w) = select_documents sv filters count (world st)
      in (r, \<lparr>world = w, calls = calls st @ [Select filters count r]\<rparr>))"

definition insert_row ::
  "'w services \<Rightarrow> row \<Rightarrow> 'w state \<Rightarrow> pg_error option \<times> 'w state" where
  "insert_row sv insertData st =
     (let (r, w) = insert_documents sv insertData (world st)
      in (r, \<lparr>world = w, calls = calls st @ [Insert insertData r]\<rparr>))"

section \<open>Retrieval\<close>

text \<open>\<open>doc.similarity || 0\<close>: an absent similarity counts as 0.\<close>

definition sim0 :: "hit \<Rightarrow> rat" where
  "sim0 d = (case similarity d of None \<Rightarrow> 0 | Some s \<Rightarrow> s)"

text \<open>\<open>{...doc, matchType: t}\<close>.\<close>

definition tag :: "match_type \<Rightarrow> doc \<Rightarrow> hit" where
  "tag t d = \<lparr>id_doc = id_doc d, content = content d, metadata = metadata d,
              similarity = similarity d, matchType = t\<rparr>"

text \<open>
  The hits each strategy takes from the store's answer. The semantic search only logs an
  error and uses \<open>semanticResults || []\<close>; the keyword and the variation search use the
  data when there is no error and the data is not null.
\<close>

definition semantic_hits :: "response \<Rightarrow> hit list" where
  "semantic_hits r = map (tag Semantic) (case data r of None \<Rightarrow> [] | Some ds \<Rightarrow> ds)"

definition keyword_hits :: "response \<Rightarrow> hit list" where
  "keyword_hits r =
     (case (error r, data r) of
        (None, Some kwResults) \<Rightarrow>
          map (\<lambda>d. \<lparr>id_doc = id_doc d, content = content d, metadata = metadata d,
                     similarity = Some (1 / 2), matchType = Keyword\<rparr>) kwResults
      | _ \<Rightarrow> [])"

definition variation_hits :: "response \<Rightarrow> hit list" where
  "variation_hits r =
     (case (error r, data r) of
        (None, Some varResults) \<Rightarrow> map (tag Variation) varResults
      | _ \<Rightarrow> [])"

text \<open>The filter of the keyword search: one case-insensitive pattern per key term.\<close>

definition ilike_filters :: "string list \<Rightarrow> string" where
  "ilike_filters keyTerms =
     join '','' (map (\<lambda>term. ''content.ilike.%'' @ term @ ''%'') keyTerms)"

text \<open>
  The loop over the question variations, with \<open>qaResults\<close> as accumulator. An exception
  of \<open>getEmbedding\<close> leaves the loop.
\<close>

fun variation_loop ::
  "'w services \<Rightarrow> string list \<Rightarrow> hit list \<Rightarrow> 'w state \<Rightarrow> (exn + hit list) \<times> 'w state" where
  "variation_loop sv [] qaResults st = (Inr qaResults, st)"
| "variation_loop sv (v # vs) qaResults st =
     (case getEmbedding sv v Query st of
        (Inl e, st1) \<Rightarrow> (Inl e, st1)
      | (Inr varEmbedding, st1) \<Rightarrow>
          (let (r, st2) = rpc sv varEmbedding (3 / 10) 3 st1
           in variation_loop sv vs (qaResults @ variation_hits r) st2))"

text \<open>
  \<open>seenContent\<close> is a \<open>Map\<close>: it keeps its keys in the order of their first insertion, and
  \<open>set\<close> on a key it has replaces the value in place.
\<close>

fun Map_set :: "'k \<Rightarrow> 'v \<Rightarrow> ('k \<times> 'v) list \<Rightarrow> ('k \<times> 'v) list" where
  "Map_set k v [] = [(k, v)]"
| "Map_set k v ((k', v') # m) = (if k' = k then (k, v) # m else (k', v') # Map_set k v m)"

definition dedupe_step :: "(string \<times> hit) list \<Rightarrow> hit \<Rightarrow> (string \<times> hit) list" where
  "dedupe_step seenContent d =
     (case map_of seenContent (content d) of
        None \<Rightarrow> Map_set (content d) d seenContent
      | Some existing \<Rightarrow>
          if sim0 d > sim0 existing then Map_set (content d) d seenContent else seenContent)"

definition dedupe :: "hit list \<Rightarrow> hit list" where
  "dedupe allResults = map snd (foldl dedupe_step [] allResults)"

text \<open>
  \<open>sort((a, b) => (b.similarity || 0) - (a.similarity || 0))\<close>: the sort of an array is
  stable, so this is the stable sort by descending similarity.
\<close>

definition sort_by_similarity :: "hit list \<Rightarrow> hit list" where
  "sort_by_similarity hs = sort_key (\<lambda>h. - sim0 h) hs"

definition uniqueResults :: "int \<Rightarrow> hit list \<Rightarrow> hit list" where
  "uniqueResults limit allResults = slice0 limit (sort_by_similarity (dedupe allResults))"

definition render :: "hit list \<Rightarrow> string" where
  "render us =
     (if length us = 0 then [] else join [CHR 0x0A, CHR 0x0A] (map content us))"

text \<open>
  The keyword search is made only when there are key terms; it asks for the rows whose
  content matches any of the patterns, \<open>limit\<close> at most.
\<close>

definition keyword_search ::
  "'w services \<Rightarrow> string \<Rightarrow> int \<Rightarrow> 'w state \<Rightarrow> hit list \<times> 'w state" where
  "keyword_search sv query limit st =
     (let keyTerms = extractKeyTerms query
      in if length keyTerms > 0
         then (let (kw, st') = select_or sv (ilike_filters keyTerms) limit st
               in (keyword_hits kw, st'))
         else ([], st))"

text \<open>
  The first part of the \<open>try\<close> block of \<open>searchDocuments\<close>, up to the array
  \<open>allResults\<close>; console output is left out.
\<close>

definition allResults ::
  "'w services \<Rightarrow> string \<Rightarrow> int \<Rightarrow> 'w state \<Rightarrow> (exn + hit list) \<times> 'w state" where
  "allResults sv query limit st =
     (case getEmbedding sv query Query st of
        (Inl e, st1) \<Rightarrow> (Inl e, st1)
      | (Inr queryEmbedding, st1) \<Rightarrow>
          (let (semantic, st2) = rpc sv queryEmbedding (3 / 10) limit st1;
               (keywordResults, st3) = keyword_search sv query limit st2;
               questionVariations = generateQuestionVariations query
           in case variation_loop sv (take 2 questionVariations) [] st3 of
                (Inl e, st4) \<Rightarrow> (Inl e, st4)
              | (Inr qaResults, st4) \<Rightarrow>
                  (Inr (semantic_hits semantic @ keywordResults @ qaResults), st4)))"

text \<open>The rest of the \<open>try\<close> block: deduplicate, rank, cut and join.\<close>

definition searchDocuments_try ::
  "'w services \<Rightarrow> string \<Rightarrow> int \<Rightarrow> 'w state \<Rightarrow> (exn + string) \<times> 'w state" where
  "searchDocuments_try sv query limit st =
     (case allResults sv query limit st of
        (Inl e, st') \<Rightarrow> (Inl e, st')
      | (Inr hits, st') \<Rightarrow> (Inr (render (uniqueResults limit hits)), st'))"

text \<open>The \<open>catch\<close> block returns the empty string for whatever was thrown.\<close>

definition searchDocuments ::
  "'w services \<Rightarrow> string \<Rightarrow> int \<Rightarrow> 'w state \<Rightarrow> (exn + string) \<times> 'w state" where
  "searchDocuments sv query limit st =
     (case searchDocuments_try sv query limit st of
        (Inl e, st') \<Rightarrow> (Inr [], st')
      | (Inr s, st') \<Rightarrow> (Inr s, st'))"

section \<open>Ingestion\<close>

text \<open>\<open>if (categoryId)\<close>: an absent or empty string is falsy.\<close>

definition truthy :: "string option \<Rightarrow> bool" where
  "truthy v = (case v of None \<Rightarrow> False | Some s \<Rightarrow> s \<noteq> [])"

text \<open>\<open>error && error.message?.includes('category_id')\<close>.\<close>

definition mentions_category_id :: "pg_error option \<Rightarrow> bool" where
  "mentions_category_id err =
     (case err of
        None \<Rightarrow> False
      | Some e \<Rightarrow> (case message e of None \<Rightarrow> False | Some m \<Rightarrow> includes_str m ''category_id''))"

text \<open>One iteration of the loop over the chunks.\<close>

definition insert_chunk ::
  "'w services \<Rightarrow> metadata \<Rightarrow> string option \<Rightarrow> chunk \<Rightarrow> 'w state \<Rightarrow> (exn + unit) \<times> 'w state" where
  "insert_chunk sv md categoryId c st =
     (case getEmbedding sv (pageContent c) Passage st of
        (Inl e, st1) \<Rightarrow> (Inl e, st1)
      | (Inr emb, st1) \<Rightarrow>
          (let insertData = \<lparr>content_row = pageContent c, metadata_row = md ++ metadata_chunk c,
                              embedding = emb, category_id = None\<rparr>;
               insertData = (if truthy categoryId then insertData\<lparr>category_id := categoryId\<rparr>
                             else insertData);
               (err, st2) = insert_row sv insertData st1;
               (err, st3) =
                 (if mentions_category_id err
                  then insert_row sv (insertData\<lparr>category_id := None\<rparr>) st2
                  else (err, st2))
           in case err of
                Some e \<Rightarrow> (Inl (Insert_error e), st3)
              | None \<Rightarrow> (Inr (), st3)))"

fun insert_chunks ::
  "'w services \<Rightarrow> metadata \<Rightarrow> string option \<Rightarrow> chunk list \<Rightarrow> 'w state \<Rightarrow> (exn + unit) \<times> 'w state" where
  "insert_chunks sv md categoryId [] st = (Inr (), st)"
| "insert_chunks sv md categoryId (c # cs) st =
     (case insert_chunk sv md categoryId c st of
        (Inl e, st') \<Rightarrow> (Inl e, st')
      | (Inr u, st') \<Rightarrow> insert_chunks sv md categoryId cs st')"

text \<open>
  The body of the \<open>try\<close> block of \<open>addDocument\<close>, and the function with its \<open>catch\<close>.
  The parameter \<open>metadata\<close> has the type \<open>any\<close>, and its default \<open>{}\<close> replaces
  \<open>undefined\<close> only: the argument is an object (\<open>Some\<close>) or \<open>null\<close> (\<open>None\<close>). For
  \<open>null\<close>, reading \<open>metadata.categoryId\<close> in the first statement throws a type error,
  before the text is split. The splitter is called with the chunk size 1000 and the
  overlap 200.
\<close>

definition addDocument_try ::
  "'w services \<Rightarrow> string \<Rightarrow> metadata option \<Rightarrow> 'w state \<Rightarrow> (exn + bool) \<times> 'w state" where
  "addDocument_try sv cont metadata_arg st =
     (case metadata_arg of
        None \<Rightarrow> (Inl Type_error, st)
      | Some md \<Rightarrow>
          (let categoryId = md ''categoryId'';
               chunks = createDocuments sv 1000 200 cont
           in case insert_chunks sv md categoryId chunks st of
                (Inl e, st') \<Rightarrow> (Inl e, st')
              | (Inr u, st') \<Rightarrow> (Inr True, st')))"

definition addDocument ::
  "'w services \<Rightarrow> string \<Rightarrow> metadata option \<Rightarrow> 'w state \<Rightarrow> bool \<times> 'w state" where
  "addDocument sv cont metadata_arg st =
     (case addDocument_try sv cont metadata_arg st of
        (Inl e, st') \<Rightarrow> (False, st')
      | (Inr b, st') \<Rightarrow> (b, st'))"

section \<open>Notions used in the statements\<close>

subsection \<open>Topics of the question variations\<close>

text \<open>
  \<open>ascii_lower\<close> is the lower case of a character given by the table of the letters
  \<open>A\<close> to \<open>Z\<close>; it is defined apart from \<open>toLowerCase\<close>. The topics of the
  question variations as a table, in the order in which the code checks them: the trigger
  substrings of a topic and its phrases. The triggers are ASCII, so only the case of the
  ASCII letters of a query decides whether one occurs. \<open>variations_spec\<close> is the
  concatenation, in that order, of the phrases of the topics one of whose triggers occurs
  in the query with its letters \<open>A\<close> to \<open>Z\<close> in lower case.
\<close>

definition ascii_lower :: "char \<Rightarrow> char" where
  "ascii_lower c =
     (case map_of (zip ''ABCDEFGHIJKLMNOPQRSTUVWXYZ'' ''abcdefghijklmnopqrstuvwxyz'') c of
        None \<Rightarrow> c
      | Some l \<Rightarrow> l)"

definition topics :: "(string list \<times> string list) list" where
  "topics =
     [([''price'', ''cost'', ''magkano'', ''presyo''], pricing_phrases),
      ([''product'', ''produkto'', ''item''], product_phrases),
      ([''deliver'', ''shipping'', ''padala''], delivery_phrases),
      ([''pay'', ''bayad'', ''gcash'', ''bank''], payment_phrases)]"

definition topic_matches :: "string \<Rightarrow> string list \<Rightarrow> bool" where
  "topic_matches lowerQuery triggers = (\<exists>t \<in> set triggers. includes_str lowerQuery t)"

definition variations_spec :: "string \<Rightarrow> string list" where
  "variations_spec query =
     concat (map (\<lambda>(triggers, phrases).
                    if topic_matches (map ascii_lower query) triggers then phrases else [])
                 topics)"

subsection \<open>The representative of a content\<close>

text \<open>
  \<open>kept_for xs h\<close>: \<open>h\<close> occurs in \<open>xs\<close>, every hit before that occurrence with the same
  content has a strictly lower similarity, and every hit after it with the same content
  has a similarity that is not higher. So \<open>h\<close> is the first hit of its content with the
  highest similarity. \<open>seen_inv\<close> is the invariant of the deduplication loop.
\<close>

definition kept_for :: "hit list \<Rightarrow> hit \<Rightarrow> bool" where
  "kept_for xs h =
     (\<exists>pre post. xs = pre @ h # post
        \<and> (\<forall>y \<in> set pre. content y = content h \<longrightarrow> sim0 y < sim0 h)
        \<and> (\<forall>y \<in> set post. content y = content h \<longrightarrow> sim0 y \<le> sim0 h))"

definition seen_inv :: "hit list \<Rightarrow> (string \<times> hit) list \<Rightarrow> bool" where
  "seen_inv xs m =
     (distinct (map fst m)
      \<and> (\<forall>k h. map_of m k = Some h \<longrightarrow> content h = k \<and> kept_for xs h)
      \<and> (\<forall>k. map_of m k = None \<longrightarrow> k \<notin> content ` set xs))"

subsection \<open>The external calls of a run\<close>

text \<open>
  \<open>calls_made st st'\<close> are the calls recorded between the states \<open>st\<close> and \<open>st'\<close>. The
  functions below read off a list of calls the arguments and the answers of the calls of
  one kind, in order. An embedding call is \<open>fetch_ok\<close> when \<open>getEmbedding\<close> returns from
  it; \<open>stored_rows\<close> are the rows of the inserts that the store accepted.
\<close>

definition calls_made :: "'w state \<Rightarrow> 'w state \<Rightarrow> call list" where
  "calls_made st st' = drop (length (calls st)) (calls st')"

fun fetch_requests :: "call list \<Rightarrow> (string \<times> input_type) list" where
  "fetch_requests [] = []"
| "fetch_requests (Fetch txt ty f # cs) = (txt, ty) # fetch_requests cs"
| "fetch_requests (c # cs) = fetch_requests cs"

fun fetch_results :: "call list \<Rightarrow> fetch_result list" where
  "fetch_results [] = []"
| "fetch_results (Fetch txt ty f # cs) = f # fetch_results cs"
| "fetch_results (c # cs) = fetch_results cs"

fun fetch_ok :: "fetch_result \<Rightarrow> bool" where
  "fetch_ok (Rejected msg) = False"
| "fetch_ok (Response ok status body payload) = (ok \<and> payload \<noteq> None)"

fun rpc_requests :: "call list \<Rightarrow> (rat \<times> int) list" where
  "rpc_requests [] = []"
| "rpc_requests (Rpc e t n r # cs) = (t, n) # rpc_requests cs"
| "rpc_requests (c # cs) = rpc_requests cs"

fun rpc_responses :: "call list \<Rightarrow> response list" where
  "rpc_responses [] = []"
| "rpc_responses (Rpc e t n r # cs) = r # rpc_responses cs"
| "rpc_responses (c # cs) = rpc_responses cs"

fun select_requests :: "call list \<Rightarrow> (string \<times> int) list" where
  "select_requests [] = []"
| "select_requests (Select flt n r # cs) = (flt, n) # select_requests cs"
| "select_requests (c # cs) = select_requests cs"

fun select_responses :: "call list \<Rightarrow> response list" where
  "select_responses [] = []"
| "select_responses (Select flt n r # cs) = r # select_responses cs"
| "select_responses (c # cs) = select_responses cs"




subsection \<open>Example data\<close>

text \<open>
  Hits, documents, answers of the store, and services for the examples. In the examples
  the world is the table of stored rows; an accepted insert appends its row, and the
  searches do not read the table.
\<close>

definition mk_hit :: "string \<Rightarrow> rat option \<Rightarrow> match_type \<Rightarrow> hit" where
  "mk_hit c s t = \<lparr>id_doc = 0, content = c, metadata = Map.empty, similarity = s, matchType = t\<rparr>"

definition mk_doc :: "string \<Rightarrow> rat option \<Rightarrow> doc" where
  "mk_doc c s = \<lparr>id_doc = 0, content = c, metadata = Map.empty, similarity = s\<rparr>"

definition ok_response :: "doc list \<Rightarrow> response" where
  "ok_response ds = \<lparr>data = Some ds, error = None\<rparr>"

definition error_response :: "string \<Rightarrow> response" where
  "error_response m = \<lparr>data = None, error = Some \<lparr>message = Some m\<rparr>\<rparr>"

definition chunk_of :: "string \<Rightarrow> chunk" where
  "chunk_of txt = \<lparr>pageContent = txt, metadata_chunk = Map.empty\<rparr>"

definition metadata_c1 :: metadata where
  "metadata_c1 = [''categoryId'' \<mapsto> ''c1'']"

definition example_services ::
  "(string \<Rightarrow> fetch_result) \<Rightarrow> (embedding \<Rightarrow> int \<Rightarrow> response) \<Rightarrow> (string \<Rightarrow> int \<Rightarrow> response)
     \<Rightarrow> (row \<Rightarrow> pg_error option) \<Rightarrow> (string \<Rightarrow> chunk list) \<Rightarrow> row list services" where
  "example_services f r s i c =
     \<lparr>fetch_embeddings = (\<lambda>txt ty w. (f txt, w)),
      rpc_match_documents = (\<lambda>e t n w. (r e n, w)),
      select_documents = (\<lambda>flt n w. (s flt n, w)),
      insert_documents = (\<lambda>d w. (i d, if i d = None then w @ [d] else w)),
      createDocuments = (\<lambda>size overlap txt. c txt)\<rparr>"

definition st0 :: "row list state" where
  "st0 = \<lparr>world = [], calls = []\<rparr>"

text \<open>
  A store that answers every search; it rejects a negative count, as the database does.
\<close>

definition services_shop :: "row list services" where
  "services_shop =
     example_services
       (\<lambda>txt. Response True 200 [] (Some [1]))
       (\<lambda>e n. if n < 0 then error_response ''LIMIT must not be negative''
              else ok_response (take (nat n) [mk_doc ''B'' (Some (9 / 10)), mk_doc ''A'' (Some (7 / 20))]))
       (\<lambda>flt n. if n < 0 then error_response ''LIMIT must not be negative''
                else ok_response (take (nat n) [mk_doc ''K'' None]))
       (\<lambda>d. None)
       (\<lambda>txt. [])"

text \<open>
  The keyword search of this store fails.
\<close>

definition services_keyword_down :: "row list services" where
  "services_keyword_down =
     example_services
       (\<lambda>txt. Response True 200 [] (Some [1]))
       (\<lambda>e n. ok_response (take (nat n) [mk_doc ''B'' (Some (9 / 10)), mk_doc ''A'' (Some (7 / 20))]))
       (\<lambda>flt n. error_response ''statement timeout'')
       (\<lambda>d. None)
       (\<lambda>txt. [])"

text \<open>
  The embedding provider answers for the text \<open>price\<close> only, so the embedding of the first
  question variation of the query \<open>price\<close> fails.
\<close>

definition services_variation_down :: "row list services" where
  "services_variation_down =
     example_services
       (\<lambda>txt. if txt = ''price'' then Response True 200 [] (Some [1])
              else Response False 503 ''unavailable'' None)
       (\<lambda>e n. ok_response [mk_doc ''X'' (Some (4 / 5))])
       (\<lambda>flt n. ok_response [])
       (\<lambda>d. None)
       (\<lambda>txt. [])"

text \<open>
  The semantic and the keyword search find the same content, both with similarity 0.5.
\<close>

definition services_tie :: "row list services" where
  "services_tie =
     example_services
       (\<lambda>txt. Response True 200 [] (Some [1]))
       (\<lambda>e n. ok_response [mk_doc ''A'' (Some (1 / 2))])
       (\<lambda>flt n. ok_response [mk_doc ''A'' None])
       (\<lambda>d. None)
       (\<lambda>txt. [])"

text \<open>
  The schema of this store has no \<open>category_id\<close> column, the insert of the content
  \<open>two\<close> times out, and the embedding of the text \<open>bad\<close> fails.
\<close>

definition services_ingest :: "row list services" where
  "services_ingest =
     example_services
       (\<lambda>txt. if txt = ''bad'' then Rejected ''network down'' else Response True 200 [] (Some [1]))
       (\<lambda>e n. ok_response [])
       (\<lambda>flt n. ok_response [])
       (\<lambda>d. if category_id d \<noteq> None then Some \<lparr>message = Some ''column category_id does not exist''\<rparr>
             else if content_row d = ''two'' then Some \<lparr>message = Some ''statement timeout''\<rparr>
             else None)
       (\<lambda>txt. if txt = ''one two'' then [chunk_of ''one'', chunk_of ''two'']
               else if txt = [] then [] else [chunk_of txt])"

section \<open>Key terms: properties\<close>









lemma split_ws_nonempty: "split_ws s \<noteq> []"
  by (induction s rule: split_ws.induct) (auto split: list.splits)

lemma concat_split_ws: "concat (split_ws s) = filter (\<lambda>c. \<not> is_space_char c) s"
proof (induction s rule: split_ws.induct)
  case 1
  then show ?case by simp
next
  case (2 c cs)
  show ?case
  proof (cases "is_space_char c")
    case True
    have "filter (\<lambda>c. \<not> is_space_char c) (dropWhile is_space_char cs) = filter (\<lambda>c. \<not> is_space_char c) cs"
      by (induction cs) auto
    with True 2 show ?thesis by simp
  next
    case False
    with 2 show ?thesis by (auto split: list.splits)
  qed
qed

lemma split_ws_no_space: "w \<in> set (split_ws s) \<Longrightarrow> c \<in> set w \<Longrightarrow> \<not> is_space_char c"
proof -
  assume "w \<in> set (split_ws s)" "c \<in> set w"
  then have "c \<in> set (concat (split_ws s))" by auto
  then show ?thesis by (simp add: concat_split_ws)
qed








section \<open>Question variations: properties\<close>

lemma includes_str_take: "take (length p) s = p \<Longrightarrow> includes_str s p"
  by (cases s) auto

lemma includes_str_map: "includes_str s p \<Longrightarrow> includes_str (map f s) (map f p)"
proof (induction s)
  case Nil
  then show ?case by simp
next
  case (Cons c cs)
  from Cons.prems have "take (length p) (c # cs) = p \<or> includes_str cs p" by simp
  then show ?case
  proof
    assume "take (length p) (c # cs) = p"
    then have "take (length (map f p)) (map f (c # cs)) = map f p"
      by (metis length_map take_map)
    then show ?thesis by (rule includes_str_take)
  next
    assume "includes_str cs p"
    then show ?thesis using Cons.IH by simp
  qed
qed

lemma lower_ascii_agree:
  "\<forall>c :: char. (of_char c :: nat) < 128 \<longrightarrow> toLowerCase_char c = ascii_lower c"
  by code_simp

lemma lower_above_ascii:
  "\<forall>c :: char. \<not> (of_char c :: nat) < 128 \<longrightarrow>
     ascii_lower c = c \<and> \<not> (of_char (toLowerCase_char c) :: nat) < 128"
  by code_simp

lemma lower_hits_same:
  assumes "(of_char x :: nat) < 128"
  shows "toLowerCase_char c = x \<longleftrightarrow> ascii_lower c = x"
proof (cases "(of_char c :: nat) < 128")
  case True
  then show ?thesis using lower_ascii_agree by simp
next
  case False
  with lower_above_ascii have a: "ascii_lower c = c" "\<not> (of_char (toLowerCase_char c) :: nat) < 128"
    by blast+
  from a(2) assms have "toLowerCase_char c \<noteq> x" by auto
  moreover from False assms have "c \<noteq> x" by auto
  ultimately show ?thesis using a(1) by simp
qed

lemma take_map_same:
  assumes "\<forall>c. \<forall>x \<in> set p. f c = x \<longleftrightarrow> g c = x"
  shows "take (length p) (map f s) = p \<longleftrightarrow> take (length p) (map g s) = p"
  using assms
proof (induction p arbitrary: s)
  case Nil
  then show ?case by simp
next
  case (Cons x p)
  show ?case
  proof (cases s)
    case Nil
    then show ?thesis by simp
  next
    case (Cons c cs)
    from Cons.prems have h: "f c = x \<longleftrightarrow> g c = x" and r: "\<forall>c. \<forall>x \<in> set p. f c = x \<longleftrightarrow> g c = x"
      by simp_all
    from Cons.IH [OF r, of cs] h Cons show ?thesis by simp
  qed
qed

lemma includes_str_map_same:
  assumes "\<forall>c. \<forall>x \<in> set p. f c = x \<longleftrightarrow> g c = x"
  shows "includes_str (map f s) p \<longleftrightarrow> includes_str (map g s) p"
proof (induction s)
  case Nil
  then show ?case by simp
next
  case (Cons c cs)
  have "take (length p) (map f (c # cs)) = p \<longleftrightarrow> take (length p) (map g (c # cs)) = p"
    using assms by (rule take_map_same)
  with Cons show ?case by (simp del: take_Suc_Cons)
qed

lemma includes_lower:
  "list_all (\<lambda>x. (of_char x :: nat) < 128) p \<Longrightarrow>
     includes_str (toLowerCase q) p \<longleftrightarrow> includes_str (map ascii_lower q) p"
  unfolding toLowerCase_def
  by (rule includes_str_map_same) (simp add: list_all_iff lower_hits_same)

lemma ascii_lower_magkano: "map ascii_lower ''magkano'' = ''magkano''"
  by code_simp

lemma includes_magkano:
  "includes_str q ''magkano'' \<Longrightarrow> includes_str (map ascii_lower q) ''magkano''"
  using includes_str_map [of q "''magkano''" ascii_lower] by (simp only: ascii_lower_magkano)

lemma generateQuestionVariations_eq: "generateQuestionVariations q = variations_spec q"
  by (simp add: generateQuestionVariations_def variations_spec_def topics_def topic_matches_def
      Let_def pricing_phrases_def product_phrases_def delivery_phrases_def payment_phrases_def
      includes_lower)

lemma variations_upper_magkano: "generateQuestionVariations ''MAGKANO'' = pricing_phrases"
  by code_simp

lemma variations_magkano_shipping:
  "generateQuestionVariations ''Magkano ang Shipping?'' = pricing_phrases @ delivery_phrases"
  by code_simp

lemma variations_hello: "generateQuestionVariations ''hello there'' = []"
  by code_simp

text \<open>
  C7. \<open>generateQuestionVariations\<close> returns the phrases of exactly the topics one of
  whose trigger substrings occurs in the lower-cased query, topic after topic in the order
  pricing, product, delivery, payment, each topic's phrases in their fixed order; the
  lower case is that of the table \<open>ascii_lower\<close>, so a trigger written in capitals in the
  query counts. A query that contains \<open>magkano\<close>, in whatever case, gets the pricing
  phrases first, \<open>Magkano?\<close> among them, and nothing else when no other topic matches.
  A query that matches no topic gets the empty list. The query \<open>MAGKANO\<close> gets the
  pricing phrases, and \<open>Magkano ang Shipping?\<close> the pricing and then the delivery phrases.
\<close>

theorem generateQuestionVariations_spec:
  "generateQuestionVariations q = variations_spec q
   \<and> (includes_str (map ascii_lower q) ''magkano'' \<longrightarrow>
        ''Magkano?'' \<in> set (generateQuestionVariations q)
        \<and> prefix pricing_phrases (generateQuestionVariations q)
        \<and> ((\<forall>tp \<in> set (tl topics). \<not> topic_matches (map ascii_lower q) (fst tp)) \<longrightarrow>
             generateQuestionVariations q = pricing_phrases))
   \<and> (includes_str q ''magkano'' \<longrightarrow> ''Magkano?'' \<in> set (generateQuestionVariations q))
   \<and> ((\<forall>tp \<in> set topics. \<not> topic_matches (map ascii_lower q) (fst tp)) \<longrightarrow>
        generateQuestionVariations q = [])
   \<and> generateQuestionVariations ''MAGKANO'' = pricing_phrases
   \<and> generateQuestionVariations ''Magkano ang Shipping?'' = pricing_phrases @ delivery_phrases"
proof (intro conjI impI)
  show "generateQuestionVariations q = variations_spec q" by (rule generateQuestionVariations_eq)
next
  assume "includes_str (map ascii_lower q) ''magkano''"
  then have m: "topic_matches (map ascii_lower q) [''price'', ''cost'', ''magkano'', ''presyo'']"
    by (simp add: topic_matches_def)
  then obtain rest where r: "generateQuestionVariations q = pricing_phrases @ rest"
    by (simp add: generateQuestionVariations_eq variations_spec_def topics_def)
  show "''Magkano?'' \<in> set (generateQuestionVariations q)"
    unfolding r by (simp add: pricing_phrases_def)
  show "prefix pricing_phrases (generateQuestionVariations q)"
    unfolding r by simp
  assume "\<forall>tp \<in> set (tl topics). \<not> topic_matches (map ascii_lower q) (fst tp)"
  with m show "generateQuestionVariations q = pricing_phrases"
    by (simp add: generateQuestionVariations_eq variations_spec_def topics_def)
next
  assume "includes_str q ''magkano''"
  then have "topic_matches (map ascii_lower q) [''price'', ''cost'', ''magkano'', ''presyo'']"
    using includes_magkano by (simp add: topic_matches_def)
  then obtain rest where r: "generateQuestionVariations q = pricing_phrases @ rest"
    by (simp add: generateQuestionVariations_eq variations_spec_def topics_def)
  show "''Magkano?'' \<in> set (generateQuestionVariations q)"
    unfolding r by (simp add: pricing_phrases_def)
next
  assume "\<forall>tp \<in> set topics. \<not> topic_matches (map ascii_lower q) (fst tp)"
  then show "generateQuestionVariations q = []"
    by (simp add: generateQuestionVariations_eq variations_spec_def topics_def)
next
  show "generateQuestionVariations ''MAGKANO'' = pricing_phrases" by (rule variations_upper_magkano)
  show "generateQuestionVariations ''Magkano ang Shipping?'' = pricing_phrases @ delivery_phrases"
    by (rule variations_magkano_shipping)
qed

lemma upper_includes_magkano: "includes_str (map ascii_lower ''Hm, MAGKANO po?'') ''magkano''"
  by code_simp

lemma upper_only_pricing:
  "list_all (\<lambda>tp. \<not> topic_matches (map ascii_lower ''Hm, MAGKANO po?'') (fst tp)) (tl topics)"
  by code_simp

lemma lower_includes_magkano: "includes_str ''magkano ba ito'' ''magkano''"
  by code_simp

lemma no_topic_hello:
  "list_all (\<lambda>tp. \<not> topic_matches (map ascii_lower ''Hello There'') (fst tp)) topics"
  by code_simp

theorem generateQuestionVariations_spec_witness:
  "includes_str (map ascii_lower ''Hm, MAGKANO po?'') ''magkano''
   \<and> list_all (\<lambda>tp. \<not> topic_matches (map ascii_lower ''Hm, MAGKANO po?'') (fst tp)) (tl topics)
   \<and> ''Magkano?'' \<in> set (generateQuestionVariations ''Hm, MAGKANO po?'')
   \<and> prefix pricing_phrases (generateQuestionVariations ''Hm, MAGKANO po?'')
   \<and> generateQuestionVariations ''Hm, MAGKANO po?'' = pricing_phrases
   \<and> includes_str ''magkano ba ito'' ''magkano''
   \<and> ''Magkano?'' \<in> set (generateQuestionVariations ''magkano ba ito'')
   \<and> list_all (\<lambda>tp. \<not> topic_matches (map ascii_lower ''Hello There'') (fst tp)) topics
   \<and> generateQuestionVariations ''Hello There'' = []"
proof -
  note t1 = generateQuestionVariations_spec [of "''Hm, MAGKANO po?''"]
  note t2 = generateQuestionVariations_spec [of "''magkano ba ito''"]
  note t3 = generateQuestionVariations_spec [of "''Hello There''"]
  have o: "\<forall>tp \<in> set (tl topics). \<not> topic_matches (map ascii_lower ''Hm, MAGKANO po?'') (fst tp)"
    using upper_only_pricing by (simp only: list_all_iff)
  have n: "\<forall>tp \<in> set topics. \<not> topic_matches (map ascii_lower ''Hello There'') (fst tp)"
    using no_topic_hello by (simp only: list_all_iff)
  from t1 upper_includes_magkano o
  have 1: "''Magkano?'' \<in> set (generateQuestionVariations ''Hm, MAGKANO po?'')"
    "prefix pricing_phrases (generateQuestionVariations ''Hm, MAGKANO po?'')"
    "generateQuestionVariations ''Hm, MAGKANO po?'' = pricing_phrases"
    by blast+
  from t2 lower_includes_magkano
  have 2: "''Magkano?'' \<in> set (generateQuestionVariations ''magkano ba ito'')" by blast
  from t3 n have 3: "generateQuestionVariations ''Hello There'' = []" by blast
  show ?thesis
    by (intro conjI)
       (rule upper_includes_magkano upper_only_pricing 1 lower_includes_magkano 2 no_topic_hello 3)+
qed

section \<open>Deduplication: properties\<close>

lemma map_of_Map_set: "map_of (Map_set k v m) = (map_of m)(k \<mapsto> v)"
  by (induction m) (auto simp: fun_eq_iff)

lemma keys_Map_set:
  "map fst (Map_set k v m) = (if k \<in> set (map fst m) then map fst m else map fst m @ [k])"
  by (induction m) (auto, force)

lemma distinct_Map_set: "distinct (map fst m) \<Longrightarrow> distinct (map fst (Map_set k v m))"
  by (simp add: keys_Map_set)

lemma kept_for_snoc_other:
  "kept_for xs h \<Longrightarrow> content x \<noteq> content h \<Longrightarrow> kept_for (xs @ [x]) h"
proof -
  assume "kept_for xs h" and ne: "content x \<noteq> content h"
  then obtain pre post where p: "xs = pre @ h # post"
    "\<forall>y \<in> set pre. content y = content h \<longrightarrow> sim0 y < sim0 h"
    "\<forall>y \<in> set post. content y = content h \<longrightarrow> sim0 y \<le> sim0 h"
    unfolding kept_for_def by blast
  have "xs @ [x] = pre @ h # (post @ [x])" using p(1) by simp
  moreover have "\<forall>y \<in> set (post @ [x]). content y = content h \<longrightarrow> sim0 y \<le> sim0 h"
    using p(3) ne by auto
  ultimately show ?thesis unfolding kept_for_def using p(2) by blast
qed

lemma kept_for_snoc_le:
  "kept_for xs h \<Longrightarrow> sim0 x \<le> sim0 h \<Longrightarrow> kept_for (xs @ [x]) h"
proof -
  assume "kept_for xs h" and le: "sim0 x \<le> sim0 h"
  then obtain pre post where p: "xs = pre @ h # post"
    "\<forall>y \<in> set pre. content y = content h \<longrightarrow> sim0 y < sim0 h"
    "\<forall>y \<in> set post. content y = content h \<longrightarrow> sim0 y \<le> sim0 h"
    unfolding kept_for_def by blast
  have "xs @ [x] = pre @ h # (post @ [x])" using p(1) by simp
  moreover have "\<forall>y \<in> set (post @ [x]). content y = content h \<longrightarrow> sim0 y \<le> sim0 h"
    using p(3) le by auto
  ultimately show ?thesis unfolding kept_for_def using p(2) by blast
qed

lemma kept_for_max: "kept_for xs h \<Longrightarrow> y \<in> set xs \<Longrightarrow> content y = content h \<Longrightarrow> sim0 y \<le> sim0 h"
  unfolding kept_for_def by (auto simp: less_imp_le)

lemma kept_for_mem: "kept_for xs h \<Longrightarrow> h \<in> set xs"
  unfolding kept_for_def by auto

lemma kept_for_new:
  "\<forall>y \<in> set xs. content y = content x \<longrightarrow> sim0 y < sim0 x \<Longrightarrow> kept_for (xs @ [x]) x"
  unfolding kept_for_def by (rule exI [of _ xs], rule exI [of _ "[]"]) simp

lemma seen_inv_step:
  assumes "seen_inv xs m"
  shows "seen_inv (xs @ [x]) (dedupe_step m x)"
proof (cases "map_of m (content x)")
  case None
  with assms have fresh: "content x \<notin> content ` set xs" by (simp add: seen_inv_def)
  then have new: "kept_for (xs @ [x]) x" by (intro kept_for_new) (metis imageI)
  have step: "dedupe_step m x = Map_set (content x) x m" using None by (simp add: dedupe_step_def)
  show ?thesis
    unfolding seen_inv_def step map_of_Map_set
    using assms new by (auto simp: seen_inv_def distinct_Map_set intro: kept_for_snoc_other split: if_splits)
next
  case (Some existing)
  with assms have ex: "content existing = content x" "kept_for xs existing" by (auto simp: seen_inv_def)
  show ?thesis
  proof (cases "sim0 x > sim0 existing")
    case True
    have "\<forall>y \<in> set xs. content y = content x \<longrightarrow> sim0 y < sim0 x"
      using kept_for_max [OF ex(2)] ex(1) True by fastforce
    then have new: "kept_for (xs @ [x]) x" by (rule kept_for_new)
    have step: "dedupe_step m x = Map_set (content x) x m" using Some True by (simp add: dedupe_step_def)
    show ?thesis
      unfolding seen_inv_def step map_of_Map_set
      using assms new by (auto simp: seen_inv_def distinct_Map_set intro: kept_for_snoc_other split: if_splits)
  next
    case False
    then have le: "sim0 x \<le> sim0 existing" by simp
    have step: "dedupe_step m x = m" using Some False by (simp add: dedupe_step_def)
    have "kept_for (xs @ [x]) h" if "map_of m k = Some h" for k h
    proof (cases "k = content x")
      case True
      with that Some have "h = existing" by simp
      then show ?thesis using kept_for_snoc_le [OF ex(2) le] by simp
    next
      case False
      from assms that have "content h = k" "kept_for xs h" by (auto simp: seen_inv_def)
      with False show ?thesis by (intro kept_for_snoc_other) auto
    qed
    moreover have "k \<notin> content ` set (xs @ [x])" if "map_of m k = None" for k
      using that assms Some by (auto simp: seen_inv_def)
    ultimately show ?thesis unfolding step using assms by (auto simp: seen_inv_def)
  qed
qed

lemma seen_inv_foldl: "seen_inv xs (foldl dedupe_step [] xs)"
proof (induction xs rule: rev_induct)
  case Nil
  show ?case by (simp add: seen_inv_def)
next
  case (snoc x xs)
  then show ?case by (simp add: seen_inv_step)
qed

lemma dedupe_contents: "map content (dedupe xs) = map fst (foldl dedupe_step [] xs)"
proof -
  let ?m = "foldl dedupe_step [] xs"
  have inv: "seen_inv xs ?m" by (rule seen_inv_foldl)
  have "content (snd p) = fst p" if "p \<in> set ?m" for p
  proof -
    from that inv have "map_of ?m (fst p) = Some (snd p)" by (simp add: seen_inv_def)
    with inv show ?thesis by (simp add: seen_inv_def)
  qed
  then show ?thesis by (simp add: dedupe_def)
qed


lemma dedupe_kept: "h \<in> set (dedupe xs) \<Longrightarrow> kept_for xs h"
proof -
  let ?m = "foldl dedupe_step [] xs"
  assume "h \<in> set (dedupe xs)"
  then obtain k where "(k, h) \<in> set ?m" by (auto simp: dedupe_def)
  moreover have inv: "seen_inv xs ?m" by (rule seen_inv_foldl)
  ultimately have "map_of ?m k = Some h" by (simp add: seen_inv_def)
  with inv show ?thesis by (simp add: seen_inv_def)
qed

lemma dedupe_covers: "content ` set (dedupe xs) = content ` set xs"
proof
  show "content ` set (dedupe xs) \<subseteq> content ` set xs"
    using dedupe_kept kept_for_mem by blast
next
  let ?m = "foldl dedupe_step [] xs"
  have inv: "seen_inv xs ?m" by (rule seen_inv_foldl)
  show "content ` set xs \<subseteq> content ` set (dedupe xs)"
  proof
    fix k assume "k \<in> content ` set xs"
    with inv obtain h where "map_of ?m k = Some h" by (cases "map_of ?m k") (auto simp: seen_inv_def)
    then have "(k, h) \<in> set ?m" by (rule map_of_SomeD)
    then have "k \<in> fst ` set ?m" by force
    then show "k \<in> content ` set (dedupe xs)"
      using dedupe_contents [of xs] by (metis list.set_map)
  qed
qed





lemma kept_in_first_part:
  assumes "kept_for (sem @ rest) h" "s \<in> set sem" "content s = content h" "sim0 h \<le> sim0 s"
  shows "h \<in> set sem"
proof -
  from assms(1) obtain pre post where p: "sem @ rest = pre @ h # post"
    "\<forall>y \<in> set pre. content y = content h \<longrightarrow> sim0 y < sim0 h"
    unfolding kept_for_def by blast
  from p(1) consider us where "sem = pre @ us" "us @ rest = h # post"
    | us where "sem @ us = pre" "rest = us @ h # post"
    by (auto simp: append_eq_append_conv2)
  then show ?thesis
  proof cases
    case 1
    show ?thesis
    proof (cases us)
      case Nil
      with 1 have "s \<in> set pre" using assms(2) by simp
      with p(2) assms(3,4) show ?thesis by fastforce
    next
      case (Cons u us')
      with 1 show ?thesis by simp
    qed
  next
    case 2
    then have "s \<in> set pre" using assms(2) by auto
    with p(2) assms(3,4) show ?thesis by fastforce
  qed
qed




section \<open>Runs of the search\<close>

lemma fetch_requests_append: "fetch_requests (a @ b) = fetch_requests a @ fetch_requests b"
  by (induction a rule: fetch_requests.induct) auto

lemma rpc_requests_append: "rpc_requests (a @ b) = rpc_requests a @ rpc_requests b"
  by (induction a rule: rpc_requests.induct) auto

lemma rpc_responses_append: "rpc_responses (a @ b) = rpc_responses a @ rpc_responses b"
  by (induction a rule: rpc_responses.induct) auto

lemma select_requests_append: "select_requests (a @ b) = select_requests a @ select_requests b"
  by (induction a rule: select_requests.induct) auto

lemma select_responses_append: "select_responses (a @ b) = select_responses a @ select_responses b"
  by (induction a rule: select_responses.induct) auto

lemma fetch_results_append: "fetch_results (a @ b) = fetch_results a @ fetch_results b"
  by (induction a rule: fetch_results.induct) auto

lemmas projections_append =
  fetch_requests_append rpc_requests_append rpc_responses_append
  select_requests_append select_responses_append

lemma calls_made_append: "calls st' = calls st @ cs \<Longrightarrow> calls_made st st' = cs"
  by (simp add: calls_made_def)

lemma getEmbedding_calls:
  "getEmbedding sv txt ty st = (r, st') \<Longrightarrow>
     \<exists>f. calls st' = calls st @ [Fetch txt ty f]
          \<and> (\<forall>e. r = Inr e \<longrightarrow> (\<exists>s b. f = Response True s b (Some e)))"
  by (auto simp: getEmbedding_def Let_def
           split: prod.splits fetch_result.splits if_splits option.splits)

lemma getEmbedding_ok:
  "getEmbedding sv txt ty st = (r, st') \<Longrightarrow>
     \<exists>f. calls st' = calls st @ [Fetch txt ty f] \<and> (fetch_ok f \<longleftrightarrow> \<not> isl r)"
  by (auto simp: getEmbedding_def Let_def
           split: prod.splits fetch_result.splits if_splits option.splits)

lemma rpc_calls: "rpc sv e t n st = (r, st') \<Longrightarrow> calls st' = calls st @ [Rpc e t n r]"
  by (auto simp: rpc_def split: prod.splits)

lemma select_or_calls: "select_or sv flt n st = (r, st') \<Longrightarrow> calls st' = calls st @ [Select flt n r]"
  by (auto simp: select_or_def split: prod.splits)


lemma keyword_search_run:
  assumes "keyword_search sv q limit st = (kw, st')"
  shows "\<exists>cs. calls st' = calls st @ cs
            \<and> kw = concat (map keyword_hits (select_responses cs))
            \<and> select_requests cs =
                (if extractKeyTerms q = [] then [] else [(ilike_filters (extractKeyTerms q), limit)])
            \<and> fetch_requests cs = [] \<and> rpc_requests cs = [] \<and> rpc_responses cs = []"
proof (cases "extractKeyTerms q = []")
  case True
  with assms have "kw = []" "st' = st" by (auto simp: keyword_search_def)
  with True show ?thesis by (intro exI [of _ "[]"]) simp
next
  case False
  with assms obtain r where r: "select_or sv (ilike_filters (extractKeyTerms q)) limit st = (r, st')"
    "kw = keyword_hits r"
    by (auto simp: keyword_search_def Let_def split: prod.splits)
  from select_or_calls [OF r(1)] r(2) False show ?thesis
    by (intro exI [of _ "[Select (ilike_filters (extractKeyTerms q)) limit r]"]) simp
qed

lemma variation_loop_Inr:
  "variation_loop sv vs acc st = (Inr out, st') \<Longrightarrow>
     \<exists>cs. calls st' = calls st @ cs
          \<and> length (rpc_responses cs) = length vs
          \<and> out = acc @ concat (map variation_hits (rpc_responses cs))
          \<and> select_responses cs = []"
proof (induction vs arbitrary: acc st)
  case Nil
  then show ?case by (intro exI [of _ "[]"]) simp
next
  case (Cons v vs)
  from Cons.prems obtain e st1 r st2 where
    s: "getEmbedding sv v Query st = (Inr e, st1)" "rpc sv e (3 / 10) 3 st1 = (r, st2)"
       "variation_loop sv vs (acc @ variation_hits r) st2 = (Inr out, st')"
    by (auto split: prod.splits sum.splits)
  from getEmbedding_calls [OF s(1)] obtain f where f: "calls st1 = calls st @ [Fetch v Query f]" by blast
  note c2 = rpc_calls [OF s(2)]
  from Cons.IH [OF s(3)] obtain cs where cs: "calls st' = calls st2 @ cs"
    "length (rpc_responses cs) = length vs"
    "out = (acc @ variation_hits r) @ concat (map variation_hits (rpc_responses cs))"
    "select_responses cs = []" by blast
  show ?case
    using f c2 cs
    by (intro exI [of _ "[Fetch v Query f, Rpc e (3 / 10) 3 r] @ cs"]) (simp add: projections_append)
qed

lemma variation_loop_calls:
  "variation_loop sv vs acc st = (res, st') \<Longrightarrow>
     \<exists>cs. calls st' = calls st @ cs
          \<and> prefix (fetch_requests cs) (map (\<lambda>v. (v, Query)) vs)
          \<and> prefix (rpc_requests cs) (replicate (length vs) (3 / 10, 3))
          \<and> select_requests cs = []"
proof (induction vs arbitrary: acc st)
  case Nil
  then show ?case by (intro exI [of _ "[]"]) simp
next
  case (Cons v vs)
  obtain r1 st1 where g: "getEmbedding sv v Query st = (r1, st1)" by (cases "getEmbedding sv v Query st")
  from getEmbedding_calls [OF g] obtain f where f: "calls st1 = calls st @ [Fetch v Query f]" by blast
  show ?case
  proof (cases r1)
    case (Inl ex)
    with g Cons.prems have "st' = st1" by simp
    with f show ?thesis by (intro exI [of _ "[Fetch v Query f]"]) simp
  next
    case (Inr e)
    obtain r st2 where s2: "rpc sv e (3 / 10) 3 st1 = (r, st2)" by (cases "rpc sv e (3 / 10) 3 st1")
    with g Inr Cons.prems have s3: "variation_loop sv vs (acc @ variation_hits r) st2 = (res, st')" by simp
    from Cons.IH [OF s3] obtain cs where cs: "calls st' = calls st2 @ cs"
      "prefix (fetch_requests cs) (map (\<lambda>v. (v, Query)) vs)"
      "prefix (rpc_requests cs) (replicate (length vs) (3 / 10, 3))"
      "select_requests cs = []" by blast
    show ?thesis
      using f rpc_calls [OF s2] cs
      by (intro exI [of _ "[Fetch v Query f, Rpc e (3 / 10) 3 r] @ cs"]) (simp add: projections_append)
  qed
qed

lemma variation_loop_Inr_ok:
  "variation_loop sv vs acc st = (Inr out, st') \<Longrightarrow>
     list_all fetch_ok (fetch_results (calls_made st st'))"
proof (induction vs arbitrary: acc st)
  case Nil
  then show ?case by (simp add: calls_made_def)
next
  case (Cons v vs)
  from Cons.prems obtain e st1 r st2 where
    s: "getEmbedding sv v Query st = (Inr e, st1)" "rpc sv e (3 / 10) 3 st1 = (r, st2)"
       "variation_loop sv vs (acc @ variation_hits r) st2 = (Inr out, st')"
    by (auto split: prod.splits sum.splits)
  from getEmbedding_ok [OF s(1)] obtain f where f: "calls st1 = calls st @ [Fetch v Query f]" "fetch_ok f"
    by auto
  from variation_loop_Inr [OF s(3)] obtain cs where cs: "calls st' = calls st2 @ cs" by blast
  then have "calls_made st2 st' = cs" by (rule calls_made_append)
  with Cons.IH [OF s(3)] have ok: "list_all fetch_ok (fetch_results cs)" by simp
  have "calls st' = calls st @ ([Fetch v Query f, Rpc e (3 / 10) 3 r] @ cs)"
    using f(1) rpc_calls [OF s(2)] cs by simp
  then have "calls_made st st' = [Fetch v Query f, Rpc e (3 / 10) 3 r] @ cs" by (rule calls_made_append)
  with f(2) ok show ?case by simp
qed

lemma variation_loop_Inr_requests:
  "variation_loop sv vs acc st = (Inr out, st') \<Longrightarrow>
     fetch_requests (calls_made st st') = map (\<lambda>v. (v, Query)) vs
     \<and> rpc_requests (calls_made st st') = replicate (length vs) (3 / 10, 3)"
proof (induction vs arbitrary: acc st)
  case Nil
  then show ?case by (simp add: calls_made_def)
next
  case (Cons v vs)
  from Cons.prems obtain e st1 r st2 where
    s: "getEmbedding sv v Query st = (Inr e, st1)" "rpc sv e (3 / 10) 3 st1 = (r, st2)"
       "variation_loop sv vs (acc @ variation_hits r) st2 = (Inr out, st')"
    by (auto split: prod.splits sum.splits)
  from getEmbedding_ok [OF s(1)] obtain f where f: "calls st1 = calls st @ [Fetch v Query f]" by auto
  from variation_loop_Inr [OF s(3)] obtain cs where cs: "calls st' = calls st2 @ cs" by blast
  then have cm: "calls_made st2 st' = cs" by (rule calls_made_append)
  have "calls st' = calls st @ ([Fetch v Query f, Rpc e (3 / 10) 3 r] @ cs)"
    using f rpc_calls [OF s(2)] cs by simp
  then have "calls_made st st' = [Fetch v Query f, Rpc e (3 / 10) 3 r] @ cs" by (rule calls_made_append)
  with Cons.IH [OF s(3)] cm show ?case by simp
qed

lemma allResults_Inr:
  assumes "allResults sv q limit st = (Inr hits, st')"
  shows "\<exists>rs vrs. rpc_responses (calls_made st st') = rs # vrs
           \<and> length vrs = length (take 2 (generateQuestionVariations q))
           \<and> hits = semantic_hits rs
                    @ concat (map keyword_hits (select_responses (calls_made st st')))
                    @ concat (map variation_hits vrs)
           \<and> list_all fetch_ok (fetch_results (calls_made st st'))"
proof -
  from assms obtain e st1 rs st2 kw st3 var where
    s: "getEmbedding sv q Query st = (Inr e, st1)" "rpc sv e (3 / 10) limit st1 = (rs, st2)"
       "keyword_search sv q limit st2 = (kw, st3)"
       "variation_loop sv (take 2 (generateQuestionVariations q)) [] st3 = (Inr var, st')"
       "hits = semantic_hits rs @ kw @ var"
    by (auto simp: allResults_def Let_def split: prod.splits sum.splits)
  from getEmbedding_ok [OF s(1)] obtain f where f: "calls st1 = calls st @ [Fetch q Query f]" "fetch_ok f"
    by auto
  note c2 = rpc_calls [OF s(2)]
  from keyword_search_run [OF s(3)] obtain ks where ks: "calls st3 = calls st2 @ ks"
    "kw = concat (map keyword_hits (select_responses ks))" "fetch_requests ks = []"
    "rpc_responses ks = []" by blast
  have kf: "fetch_results ks = []"
    using s(3) ks(1)
    by (cases "extractKeyTerms q = []")
       (auto simp: keyword_search_def Let_def split: prod.splits dest!: select_or_calls)
  from variation_loop_Inr [OF s(4)] obtain vs where vs: "calls st' = calls st3 @ vs"
    "length (rpc_responses vs) = length (take 2 (generateQuestionVariations q))"
    "var = [] @ concat (map variation_hits (rpc_responses vs))" "select_responses vs = []" by blast
  from vs(1) have "calls_made st3 st' = vs" by (rule calls_made_append)
  with variation_loop_Inr_ok [OF s(4)] have vok: "list_all fetch_ok (fetch_results vs)" by simp
  have "calls st' = calls st @ ([Fetch q Query f, Rpc e (3 / 10) limit rs] @ ks @ vs)"
    using f(1) c2 ks(1) vs(1) by simp
  then have cm: "calls_made st st' = [Fetch q Query f, Rpc e (3 / 10) limit rs] @ ks @ vs"
    by (rule calls_made_append)
  show ?thesis
    unfolding cm using s(5) ks vs f(2) vok kf
    by (intro exI [of _ rs] exI [of _ "rpc_responses vs"])
       (simp add: projections_append fetch_results_append)
qed

lemma allResults_calls:
  assumes "allResults sv q limit st = (res, st')"
  shows "\<exists>cs. calls st' = calls st @ cs
          \<and> prefix (fetch_requests cs)
               ((q, Query) # map (\<lambda>v. (v, Query)) (take 2 (generateQuestionVariations q)))
          \<and> prefix (rpc_requests cs)
               ((3 / 10, limit) # replicate (length (take 2 (generateQuestionVariations q))) (3 / 10, 3))
          \<and> prefix (select_requests cs) [(ilike_filters (extractKeyTerms q), limit)]
          \<and> (extractKeyTerms q = [] \<longrightarrow> select_requests cs = [])"
proof -
  obtain r1 st1 where g: "getEmbedding sv q Query st = (r1, st1)" by (cases "getEmbedding sv q Query st")
  from getEmbedding_ok [OF g] obtain f where f: "calls st1 = calls st @ [Fetch q Query f]" by blast
  show ?thesis
  proof (cases r1)
    case (Inl ex)
    with g assms have "st' = st1" by (simp add: allResults_def)
    with f show ?thesis by (intro exI [of _ "[Fetch q Query f]"]) simp
  next
    case (Inr e)
    obtain rs st2 where s2: "rpc sv e (3 / 10) limit st1 = (rs, st2)" by (cases "rpc sv e (3 / 10) limit st1")
    obtain kw st3 where s3: "keyword_search sv q limit st2 = (kw, st3)" by (cases "keyword_search sv q limit st2")
    obtain rv st4 where s4: "variation_loop sv (take 2 (generateQuestionVariations q)) [] st3 = (rv, st4)"
      by (cases "variation_loop sv (take 2 (generateQuestionVariations q)) [] st3")
    from g Inr s2 s3 s4 assms have st': "st' = st4"
      by (auto simp: allResults_def Let_def split: sum.splits)
    from keyword_search_run [OF s3] obtain ks where ks: "calls st3 = calls st2 @ ks"
      "select_requests ks =
         (if extractKeyTerms q = [] then [] else [(ilike_filters (extractKeyTerms q), limit)])"
      "fetch_requests ks = []" "rpc_requests ks = []" by blast
    from variation_loop_calls [OF s4] obtain vs where vs: "calls st4 = calls st3 @ vs"
      "prefix (fetch_requests vs) (map (\<lambda>v. (v, Query)) (take 2 (generateQuestionVariations q)))"
      "prefix (rpc_requests vs) (replicate (length (take 2 (generateQuestionVariations q))) (3 / 10, 3))"
      "select_requests vs = []" by blast
    show ?thesis
      using f rpc_calls [OF s2] ks vs st'
      by (intro exI [of _ "[Fetch q Query f, Rpc e (3 / 10) limit rs] @ ks @ vs"])
         (simp add: projections_append)
  qed
qed

lemma allResults_Inl:
  assumes "allResults sv q limit st = (Inl ex, st')"
  shows "\<not> list_all fetch_ok (fetch_results (calls_made st st'))"
proof -
  obtain r1 st1 where g: "getEmbedding sv q Query st = (r1, st1)" by (cases "getEmbedding sv q Query st")
  from getEmbedding_ok [OF g] obtain f where f: "calls st1 = calls st @ [Fetch q Query f]"
    "fetch_ok f \<longleftrightarrow> \<not> isl r1" by blast
  show ?thesis
  proof (cases r1)
    case (Inl ex')
    with g assms have "st' = st1" by (simp add: allResults_def)
    with f Inl show ?thesis by (simp add: calls_made_def)
  next
    case (Inr e)
    obtain rs st2 where s2: "rpc sv e (3 / 10) limit st1 = (rs, st2)" by (cases "rpc sv e (3 / 10) limit st1")
    obtain kw st3 where s3: "keyword_search sv q limit st2 = (kw, st3)" by (cases "keyword_search sv q limit st2")
    from g Inr s2 s3 assms
    have s4: "variation_loop sv (take 2 (generateQuestionVariations q)) [] st3 = (Inl ex, st')"
      by (auto simp: allResults_def Let_def split: sum.splits prod.splits)
    have bad: "\<not> list_all fetch_ok (fetch_results (calls_made st0 st1'))"
      if "variation_loop sv vs acc st0 = (Inl ex, st1')" for vs acc st0 st1'
      using that
    proof (induction vs arbitrary: acc st0)
      case Nil
      then show ?case by simp
    next
      case (Cons v vs)
      obtain r st1a where g1: "getEmbedding sv v Query st0 = (r, st1a)" by (cases "getEmbedding sv v Query st0")
      from getEmbedding_ok [OF g1] obtain f1 where f1: "calls st1a = calls st0 @ [Fetch v Query f1]"
        "fetch_ok f1 \<longleftrightarrow> \<not> isl r" by blast
      show ?case
      proof (cases r)
        case (Inl a)
        with g1 Cons.prems have "st1' = st1a" by simp
        with f1 Inl show ?thesis by (simp add: calls_made_def)
      next
        case (Inr e1)
        obtain rr st2a where r2: "rpc sv e1 (3 / 10) 3 st1a = (rr, st2a)" by (cases "rpc sv e1 (3 / 10) 3 st1a")
        with g1 Inr Cons.prems have l: "variation_loop sv vs (acc @ variation_hits rr) st2a = (Inl ex, st1')"
          by simp
        from variation_loop_calls [OF l] obtain cs where cs: "calls st1' = calls st2a @ cs" by blast
        then have cm: "calls_made st2a st1' = cs" by (rule calls_made_append)
        have "calls st1' = calls st0 @ ([Fetch v Query f1, Rpc e1 (3 / 10) 3 rr] @ cs)"
          using f1(1) rpc_calls [OF r2] cs by simp
        then have "calls_made st0 st1' = [Fetch v Query f1, Rpc e1 (3 / 10) 3 rr] @ cs"
          by (rule calls_made_append)
        with Cons.IH [OF l] cm show ?thesis by simp
      qed
    qed
    from variation_loop_calls [OF s4] obtain vs where vs: "calls st' = calls st3 @ vs" by blast
    then have cm: "calls_made st3 st' = vs" by (rule calls_made_append)
    from keyword_search_run [OF s3] obtain ks where ks: "calls st3 = calls st2 @ ks" by blast
    have "calls st' = calls st @ ([Fetch q Query f, Rpc e (3 / 10) limit rs] @ ks @ vs)"
      using f(1) rpc_calls [OF s2] ks vs by simp
    then have "calls_made st st' = [Fetch q Query f, Rpc e (3 / 10) limit rs] @ ks @ vs"
      by (rule calls_made_append)
    with bad [OF s4] cm show ?thesis by (simp add: fetch_results_append)
  qed
qed

lemma allResults_Inr_requests:
  assumes "allResults sv q limit st = (Inr hits, st')"
  shows "fetch_requests (calls_made st st')
           = (q, Query) # map (\<lambda>v. (v, Query)) (take 2 (generateQuestionVariations q))
         \<and> rpc_requests (calls_made st st')
           = (3 / 10, limit) # replicate (length (take 2 (generateQuestionVariations q))) (3 / 10, 3)"
proof -
  from assms obtain e st1 rs st2 kw st3 var where
    s: "getEmbedding sv q Query st = (Inr e, st1)" "rpc sv e (3 / 10) limit st1 = (rs, st2)"
       "keyword_search sv q limit st2 = (kw, st3)"
       "variation_loop sv (take 2 (generateQuestionVariations q)) [] st3 = (Inr var, st')"
    by (auto simp: allResults_def Let_def split: prod.splits sum.splits)
  from getEmbedding_ok [OF s(1)] obtain f where f: "calls st1 = calls st @ [Fetch q Query f]" by auto
  from keyword_search_run [OF s(3)] obtain ks where ks: "calls st3 = calls st2 @ ks"
    "fetch_requests ks = []" "rpc_requests ks = []" by blast
  from variation_loop_Inr [OF s(4)] obtain vs where vs: "calls st' = calls st3 @ vs" by blast
  then have cm: "calls_made st3 st' = vs" by (rule calls_made_append)
  have "calls st' = calls st @ ([Fetch q Query f, Rpc e (3 / 10) limit rs] @ ks @ vs)"
    using f rpc_calls [OF s(2)] ks(1) vs by simp
  then have "calls_made st st' = [Fetch q Query f, Rpc e (3 / 10) limit rs] @ ks @ vs"
    by (rule calls_made_append)
  with variation_loop_Inr_requests [OF s(4)] cm ks show ?thesis
    by (simp add: projections_append)
qed

lemma searchDocuments_eq:
  "searchDocuments sv q limit st =
     (case allResults sv q limit st of
        (Inl e, st') \<Rightarrow> (Inr [], st')
      | (Inr hits, st') \<Rightarrow> (Inr (render (uniqueResults limit hits)), st'))"
  by (simp add: searchDocuments_def searchDocuments_try_def split: prod.splits sum.splits)

lemma searchDocuments_state: "snd (searchDocuments sv q limit st) = snd (allResults sv q limit st)"
  by (simp add: searchDocuments_eq split: prod.splits sum.splits)

lemma failed_semantic: "data r = None \<Longrightarrow> semantic_hits r = []"
  by (simp add: semantic_hits_def)

lemma failed_keyword: "error r \<noteq> None \<Longrightarrow> keyword_hits r = []"
  by (auto simp: keyword_hits_def split: option.splits)

lemma failed_variation: "error r \<noteq> None \<Longrightarrow> variation_hits r = []"
  by (auto simp: variation_hits_def split: option.splits)

lemma semantic_hits_type: "list_all (\<lambda>h. matchType h = Semantic) (semantic_hits r)"
  by (simp add: semantic_hits_def tag_def list_all_iff)

lemma keyword_hits_type:
  "list_all (\<lambda>h. similarity h = Some (1 / 2) \<and> matchType h = Keyword) (keyword_hits r)"
  by (auto simp: keyword_hits_def list_all_iff split: option.splits)

lemma variation_hits_type: "list_all (\<lambda>h. matchType h = Variation) (variation_hits r)"
  by (auto simp: variation_hits_def tag_def list_all_iff split: option.splits)

lemma uniqueResults_Nil: "uniqueResults limit [] = []"
  by (simp add: uniqueResults_def slice0_def sort_by_similarity_def dedupe_def)

lemma fetch_failure_empty:
  assumes "\<not> list_all fetch_ok (fetch_results (calls_made st (snd (searchDocuments sv q limit st))))"
  shows "fst (searchDocuments sv q limit st) = Inr []"
proof -
  obtain res st' where a: "allResults sv q limit st = (res, st')" by (cases "allResults sv q limit st")
  show ?thesis
  proof (cases res)
    case (Inl e)
    with a show ?thesis by (simp add: searchDocuments_eq)
  next
    case (Inr hits)
    with a allResults_Inr [of sv q limit st hits st']
    have "list_all fetch_ok (fetch_results (calls_made st st'))" by blast
    with assms a show ?thesis by (simp add: searchDocuments_state)
  qed
qed



lemma stable_sort_by_similarity:
  "filter (\<lambda>h. sim0 h = k) (sort_by_similarity hs) = filter (\<lambda>h. sim0 h = k) hs"
  using sort_key_stable [of "\<lambda>h. - sim0 h" "- k" hs] by (simp add: sort_by_similarity_def)




section \<open>Example runs of the search\<close>

lemmas run_simps =
  searchDocuments_eq allResults_def keyword_search_def getEmbedding_def rpc_def select_or_def
  example_services_def st0_def ilike_filters_def Let_def ok_response_def error_response_def
  mk_doc_def semantic_hits_def keyword_hits_def variation_hits_def tag_def calls_made_def

lemmas rank_simps =
  uniqueResults_def dedupe_def dedupe_step_def sort_by_similarity_def slice0_def render_def sim0_def

lemma key_terms_price: "extractKeyTerms ''price'' = [''price'']" by code_simp

lemma variations_price: "take 2 (generateQuestionVariations ''price'') = [''What is the price?'', ''How much does it cost?'']"
  by code_simp

lemma key_terms_hello: "extractKeyTerms ''hello'' = [''hello'']" by code_simp

lemma variations_hello_take2: "take 2 (generateQuestionVariations ''hello'') = []" by code_simp

lemma run_variation_down:
  "searchDocuments services_variation_down ''price'' 5 st0 =
     (Inr [], \<lparr>world = [],
               calls = [Fetch ''price'' Query (Response True 200 [] (Some [1])),
                        Rpc [1] (3 / 10) 5 (ok_response [mk_doc ''X'' (Some (4 / 5))]),
                        Select ''content.ilike.%price%'' 5 (ok_response []),
                        Fetch ''What is the price?'' Query (Response False 503 ''unavailable'' None)]\<rparr>)"
  by (simp add: searchDocuments_def searchDocuments_try_def allResults_def keyword_search_def
      key_terms_price variations_price getEmbedding_def rpc_def select_or_def services_variation_down_def example_services_def
      st0_def ilike_filters_def Let_def)

lemma variation_down_fetch_failed:
  "\<not> list_all fetch_ok (fetch_results (calls_made st0 (snd (searchDocuments services_variation_down ''price'' 5 st0))))"
proof -
  have "calls st0 = []" by (simp add: st0_def)
  then show ?thesis by (simp add: run_variation_down calls_made_def)
qed

lemma variation_down_hello_embedding:
  "getEmbedding services_variation_down ''hello'' Query st0 =
     (Inl (Embedding_API_error 503 ''unavailable''),
      \<lparr>world = [], calls = [Fetch ''hello'' Query (Response False 503 ''unavailable'' None)]\<rparr>)"
  by (simp add: getEmbedding_def services_variation_down_def example_services_def st0_def)

lemma variation_down_price_allResults:
  "fst (allResults services_variation_down ''price'' 5 st0) = Inl (Embedding_API_error 503 ''unavailable'')"
  by (simp add: run_simps services_variation_down_def key_terms_price variations_price)

lemma shop_hits_2:
  "fst (allResults services_shop ''price'' 2 st0) =
     Inr [tag Semantic (mk_doc ''B'' (Some (9 / 10))), tag Semantic (mk_doc ''A'' (Some (7 / 20))),
          \<lparr>id_doc = 0, content = ''K'', metadata = Map.empty, similarity = Some (1 / 2), matchType = Keyword\<rparr>,
          tag Variation (mk_doc ''B'' (Some (9 / 10))), tag Variation (mk_doc ''A'' (Some (7 / 20))),
          tag Variation (mk_doc ''B'' (Some (9 / 10))), tag Variation (mk_doc ''A'' (Some (7 / 20)))]"
  by (simp add: run_simps services_shop_def key_terms_price variations_price)

lemma shop_run_2:
  "allResults services_shop ''price'' 2 st0 =
     (Inr [tag Semantic (mk_doc ''B'' (Some (9 / 10))), tag Semantic (mk_doc ''A'' (Some (7 / 20))),
          \<lparr>id_doc = 0, content = ''K'', metadata = Map.empty, similarity = Some (1 / 2), matchType = Keyword\<rparr>,
          tag Variation (mk_doc ''B'' (Some (9 / 10))), tag Variation (mk_doc ''A'' (Some (7 / 20))),
          tag Variation (mk_doc ''B'' (Some (9 / 10))), tag Variation (mk_doc ''A'' (Some (7 / 20)))],
      snd (allResults services_shop ''price'' 2 st0))"
  using shop_hits_2 by (simp add: prod_eq_iff)


lemma shop_requests_2:
  "rpc_requests (calls_made st0 (snd (searchDocuments services_shop ''price'' 2 st0)))
     = [(3 / 10, 2), (3 / 10, 3), (3 / 10, 3)]
   \<and> fetch_requests (calls_made st0 (snd (searchDocuments services_shop ''price'' 2 st0)))
     = [(''price'', Query), (''What is the price?'', Query), (''How much does it cost?'', Query)]
   \<and> select_requests (calls_made st0 (snd (searchDocuments services_shop ''price'' 2 st0)))
     = [(''content.ilike.%price%'', 2)]"
  by (simp add: run_simps services_shop_def key_terms_price variations_price)

lemma shop_neg_hello_responses:
  "list_all (\<lambda>r. error r \<noteq> None \<and> data r = None)
     (rpc_responses (calls_made st0 (snd (searchDocuments services_shop ''hello'' (- 1) st0)))
      @ select_responses (calls_made st0 (snd (searchDocuments services_shop ''hello'' (- 1) st0))))"
  by (simp add: run_simps services_shop_def key_terms_hello variations_hello_take2)

lemma shop_neg_hello_hits:
  "fst (allResults services_shop ''hello'' (- 1) st0) = Inr []"
  by (simp add: run_simps services_shop_def key_terms_hello variations_hello_take2)

lemma keyword_down_hits:
  "fst (allResults services_keyword_down ''price'' 5 st0) =
     Inr [tag Semantic (mk_doc ''B'' (Some (9 / 10))), tag Semantic (mk_doc ''A'' (Some (7 / 20))),
          tag Variation (mk_doc ''B'' (Some (9 / 10))), tag Variation (mk_doc ''A'' (Some (7 / 20))),
          tag Variation (mk_doc ''B'' (Some (9 / 10))), tag Variation (mk_doc ''A'' (Some (7 / 20)))]"
  by (simp add: run_simps services_keyword_down_def key_terms_price variations_price)

lemma keyword_down_selects:
  "select_responses (calls_made st0 (snd (allResults services_keyword_down ''price'' 5 st0)))
     = [error_response ''statement timeout'']"
  by (simp add: run_simps services_keyword_down_def key_terms_price variations_price)

lemma keyword_down_out:
  "fst (searchDocuments services_keyword_down ''price'' 5 st0) = Inr (''B'' @ [CHR 0x0A, CHR 0x0A] @ ''A'')"
  by (simp add: run_simps rank_simps services_keyword_down_def key_terms_price variations_price)

lemma tie_hits:
  "fst (allResults services_tie ''hello'' 5 st0) =
     Inr [tag Semantic (mk_doc ''A'' (Some (1 / 2))),
          \<lparr>id_doc = 0, content = ''A'', metadata = Map.empty, similarity = Some (1 / 2), matchType = Keyword\<rparr>]"
  by (simp add: run_simps services_tie_def key_terms_hello variations_hello_take2)


lemma tie_example:
  "dedupe [mk_hit ''A'' (Some (1 / 2)) Semantic, mk_hit ''A'' (Some (1 / 2)) Keyword,
           mk_hit ''A'' (Some (1 / 2)) Variation]
   = [mk_hit ''A'' (Some (1 / 2)) Semantic]"
  by (simp add: dedupe_def dedupe_step_def mk_hit_def sim0_def)

section \<open>The result of the search\<close>




section \<open>Failures during the search\<close>

text \<open>
  C1, amended. Errors that the store reports are isolated: the merged hits of a run that
  was not left by an exception are the hits of the answer to the semantic search, then
  those of the answer to the keyword search, then those of the answers to the variation
  searches, each answer contributing on its own; an answer with an error and no data
  contributes no hits, whichever search it answers, and the result is computed from the
  hits of the other answers. A failing embedding call is not isolated: when any embedding
  call of the run fails, for the query or for a variation, the result is the empty string.
\<close>

theorem store_errors_isolated:
  "(allResults sv q limit st = (Inr hits, st') \<longrightarrow>
      (\<exists>rs vrs. rpc_responses (calls_made st st') = rs # vrs
         \<and> length vrs = length (take 2 (generateQuestionVariations q))
         \<and> hits = semantic_hits rs
                  @ concat (map keyword_hits (select_responses (calls_made st st')))
                  @ concat (map variation_hits vrs)
         \<and> searchDocuments sv q limit st = (Inr (render (uniqueResults limit hits)), st')))
   \<and> (error r \<noteq> None \<and> data r = None \<longrightarrow> semantic_hits r = [])
   \<and> (error r \<noteq> None \<longrightarrow> keyword_hits r = [] \<and> variation_hits r = [])
   \<and> (\<not> list_all fetch_ok (fetch_results (calls_made st (snd (searchDocuments sv q limit st))))
        \<longrightarrow> fst (searchDocuments sv q limit st) = Inr [])"
proof (intro conjI impI)
  assume a: "allResults sv q limit st = (Inr hits, st')"
  from allResults_Inr [OF a] obtain rs vrs where
    "rpc_responses (calls_made st st') = rs # vrs"
    "length vrs = length (take 2 (generateQuestionVariations q))"
    "hits = semantic_hits rs
            @ concat (map keyword_hits (select_responses (calls_made st st')))
            @ concat (map variation_hits vrs)"
    by blast
  moreover from a have "searchDocuments sv q limit st = (Inr (render (uniqueResults limit hits)), st')"
    by (simp add: searchDocuments_eq)
  ultimately show "\<exists>rs vrs. rpc_responses (calls_made st st') = rs # vrs
         \<and> length vrs = length (take 2 (generateQuestionVariations q))
         \<and> hits = semantic_hits rs
                  @ concat (map keyword_hits (select_responses (calls_made st st')))
                  @ concat (map variation_hits vrs)
         \<and> searchDocuments sv q limit st = (Inr (render (uniqueResults limit hits)), st')"
    by blast
next
  assume "error r \<noteq> None \<and> data r = None"
  then show "semantic_hits r = []" by (simp add: failed_semantic)
next
  assume "error r \<noteq> None"
  then show "keyword_hits r = []" by (rule failed_keyword)
next
  assume "error r \<noteq> None"
  then show "variation_hits r = []" by (rule failed_variation)
next
  assume "\<not> list_all fetch_ok (fetch_results (calls_made st (snd (searchDocuments sv q limit st))))"
  then show "fst (searchDocuments sv q limit st) = Inr []" by (rule fetch_failure_empty)
qed

theorem store_errors_isolated_witness:
  "fst (allResults services_keyword_down ''price'' 5 st0) =
     Inr [tag Semantic (mk_doc ''B'' (Some (9 / 10))), tag Semantic (mk_doc ''A'' (Some (7 / 20))),
          tag Variation (mk_doc ''B'' (Some (9 / 10))), tag Variation (mk_doc ''A'' (Some (7 / 20))),
          tag Variation (mk_doc ''B'' (Some (9 / 10))), tag Variation (mk_doc ''A'' (Some (7 / 20)))]
   \<and> select_responses (calls_made st0 (snd (allResults services_keyword_down ''price'' 5 st0)))
       = [error_response ''statement timeout'']
   \<and> error (error_response ''statement timeout'') \<noteq> None
   \<and> data (error_response ''statement timeout'') = None
   \<and> semantic_hits (error_response ''statement timeout'') = []
   \<and> keyword_hits (error_response ''statement timeout'') = []
   \<and> variation_hits (error_response ''statement timeout'') = []
   \<and> searchDocuments services_keyword_down ''price'' 5 st0
       = (Inr (render (uniqueResults 5
            [tag Semantic (mk_doc ''B'' (Some (9 / 10))), tag Semantic (mk_doc ''A'' (Some (7 / 20))),
             tag Variation (mk_doc ''B'' (Some (9 / 10))), tag Variation (mk_doc ''A'' (Some (7 / 20))),
             tag Variation (mk_doc ''B'' (Some (9 / 10))), tag Variation (mk_doc ''A'' (Some (7 / 20)))])),
          snd (allResults services_keyword_down ''price'' 5 st0))
   \<and> fst (searchDocuments services_keyword_down ''price'' 5 st0)
       = Inr (''B'' @ [CHR 0x0A, CHR 0x0A] @ ''A'')
   \<and> \<not> list_all fetch_ok
         (fetch_results (calls_made st0 (snd (searchDocuments services_variation_down ''price'' 5 st0))))
   \<and> fst (searchDocuments services_variation_down ''price'' 5 st0) = Inr []"
proof -
  let ?hits = "[tag Semantic (mk_doc ''B'' (Some (9 / 10))), tag Semantic (mk_doc ''A'' (Some (7 / 20))),
          tag Variation (mk_doc ''B'' (Some (9 / 10))), tag Variation (mk_doc ''A'' (Some (7 / 20))),
          tag Variation (mk_doc ''B'' (Some (9 / 10))), tag Variation (mk_doc ''A'' (Some (7 / 20)))]"
  let ?st = "snd (allResults services_keyword_down ''price'' 5 st0)"
  let ?r = "error_response ''statement timeout''"
  note t1 = store_errors_isolated [where sv = services_keyword_down and q = "''price''" and limit = 5
      and st = st0 and hits = ?hits and st' = ?st and r = ?r]
  note t2 = store_errors_isolated [where sv = services_variation_down and q = "''price''" and limit = 5
      and st = st0 and hits = ?hits and st' = ?st and r = ?r]
  have run: "allResults services_keyword_down ''price'' 5 st0 = (Inr ?hits, ?st)"
    using keyword_down_hits by (simp add: prod_eq_iff)
  have e: "error ?r \<noteq> None" "data ?r = None" by (simp_all add: error_response_def)
  from t1 run have 1: "searchDocuments services_keyword_down ''price'' 5 st0
       = (Inr (render (uniqueResults 5 ?hits)), ?st)" by blast
  from t1 e have 2: "semantic_hits ?r = []" "keyword_hits ?r = []" "variation_hits ?r = []"
    by blast+
  from t2 variation_down_fetch_failed have 3: "fst (searchDocuments services_variation_down ''price'' 5 st0) = Inr []"
    by blast
  show ?thesis
    by (intro conjI) (rule keyword_down_hits keyword_down_selects e 1 2 3 keyword_down_out variation_down_fetch_failed)+
qed

text \<open>
  The claim as it is stated includes the embedding call of a variation. In this run the
  semantic search has found the document \<open>X\<close>, the embedding of the first variation fails,
  and the result is the empty string and not the content \<open>X\<close>.
\<close>

theorem variation_embedding_failure_counterexample:
  "calls (snd (searchDocuments services_variation_down ''price'' 5 st0)) =
     [Fetch ''price'' Query (Response True 200 [] (Some [1])),
      Rpc [1] (3 / 10) 5 (ok_response [mk_doc ''X'' (Some (4 / 5))]),
      Select ''content.ilike.%price%'' 5 (ok_response []),
      Fetch ''What is the price?'' Query (Response False 503 ''unavailable'' None)]
   \<and> semantic_hits (ok_response [mk_doc ''X'' (Some (4 / 5))]) = [tag Semantic (mk_doc ''X'' (Some (4 / 5)))]
   \<and> render (uniqueResults 5 (semantic_hits (ok_response [mk_doc ''X'' (Some (4 / 5))])
                               @ keyword_hits (ok_response []))) = ''X''
   \<and> fst (searchDocuments services_variation_down ''price'' 5 st0) = Inr []
   \<and> fst (searchDocuments services_variation_down ''price'' 5 st0)
       \<noteq> Inr (render (uniqueResults 5 (semantic_hits (ok_response [mk_doc ''X'' (Some (4 / 5))])
                                        @ keyword_hits (ok_response []))))"
  by (simp add: run_variation_down rank_simps semantic_hits_def keyword_hits_def ok_response_def tag_def mk_doc_def)

text \<open>
  C4. \<open>searchDocuments\<close> returns a string in every run, whatever the services answer and
  whatever the limit is: it raises nothing, also not for a negative limit. A search that
  fails returns the empty string: when the embedding of the query fails, when any
  exception leaves the \<open>try\<close> block, when every answer of the store carries an error and
  no data, and when there are no hits.
\<close>

theorem search_never_raises:
  "(\<exists>s st'. searchDocuments sv q limit st = (Inr s, st'))
   \<and> (\<forall>e st1. getEmbedding sv q Query st = (Inl e, st1) \<longrightarrow>
         searchDocuments sv q limit st = (Inr [], st1))
   \<and> (\<forall>e st'. allResults sv q limit st = (Inl e, st') \<longrightarrow>
         searchDocuments sv q limit st = (Inr [], st'))
   \<and> (list_all (\<lambda>r. error r \<noteq> None \<and> data r = None)
         (rpc_responses (calls_made st (snd (searchDocuments sv q limit st)))
          @ select_responses (calls_made st (snd (searchDocuments sv q limit st))))
        \<longrightarrow> fst (searchDocuments sv q limit st) = Inr [])
   \<and> (\<forall>st'. allResults sv q limit st = (Inr [], st') \<longrightarrow>
         searchDocuments sv q limit st = (Inr [], st'))"
proof (intro conjI allI impI)
  show "\<exists>s st'. searchDocuments sv q limit st = (Inr s, st')"
    by (simp add: searchDocuments_eq split: prod.splits sum.splits)
next
  fix e st1 assume "getEmbedding sv q Query st = (Inl e, st1)"
  then show "searchDocuments sv q limit st = (Inr [], st1)"
    by (simp add: searchDocuments_eq allResults_def)
next
  fix e st' assume "allResults sv q limit st = (Inl e, st')"
  then show "searchDocuments sv q limit st = (Inr [], st')" by (simp add: searchDocuments_eq)
next
  fix st' assume "allResults sv q limit st = (Inr [], st')"
  then show "searchDocuments sv q limit st = (Inr [], st')"
    by (simp add: searchDocuments_eq uniqueResults_Nil render_def)
next
  let ?cs = "calls_made st (snd (searchDocuments sv q limit st))"
  assume all: "list_all (\<lambda>r. error r \<noteq> None \<and> data r = None)
                 (rpc_responses ?cs @ select_responses ?cs)"
  obtain res st' where a: "allResults sv q limit st = (res, st')" by (cases "allResults sv q limit st")
  then have cs: "?cs = calls_made st st'" by (simp add: searchDocuments_state)
  show "fst (searchDocuments sv q limit st) = Inr []"
  proof (cases res)
    case (Inl e)
    with a show ?thesis by (simp add: searchDocuments_eq)
  next
    case (Inr hits)
    from allResults_Inr [OF a [unfolded Inr]] obtain rs vrs where
      r: "rpc_responses (calls_made st st') = rs # vrs"
         "hits = semantic_hits rs
                 @ concat (map keyword_hits (select_responses (calls_made st st')))
                 @ concat (map variation_hits vrs)"
      by blast
    from all cs r(1) have f: "data rs = None" "\<forall>r \<in> set vrs. error r \<noteq> None"
      "\<forall>r \<in> set (select_responses (calls_made st st')). error r \<noteq> None"
      by (auto simp: list_all_iff)
    have "hits = []"
      unfolding r(2) using f by (simp add: failed_semantic failed_keyword failed_variation)
    with a Inr show ?thesis by (simp add: searchDocuments_eq uniqueResults_Nil render_def)
  qed
qed

theorem search_never_raises_witness:
  "getEmbedding services_variation_down ''hello'' Query st0 =
     (Inl (Embedding_API_error 503 ''unavailable''),
      \<lparr>world = [], calls = [Fetch ''hello'' Query (Response False 503 ''unavailable'' None)]\<rparr>)
   \<and> searchDocuments services_variation_down ''hello'' 5 st0 =
     (Inr [], \<lparr>world = [], calls = [Fetch ''hello'' Query (Response False 503 ''unavailable'' None)]\<rparr>)
   \<and> allResults services_variation_down ''price'' 5 st0 =
     (Inl (Embedding_API_error 503 ''unavailable''), snd (allResults services_variation_down ''price'' 5 st0))
   \<and> searchDocuments services_variation_down ''price'' 5 st0 = (Inr [], snd (allResults services_variation_down ''price'' 5 st0))
   \<and> list_all (\<lambda>r. error r \<noteq> None \<and> data r = None)
       (rpc_responses (calls_made st0 (snd (searchDocuments services_shop ''hello'' (- 1) st0)))
        @ select_responses (calls_made st0 (snd (searchDocuments services_shop ''hello'' (- 1) st0))))
   \<and> fst (searchDocuments services_shop ''hello'' (- 1) st0) = Inr []
   \<and> allResults services_shop ''hello'' (- 1) st0 =
       (Inr [], snd (allResults services_shop ''hello'' (- 1) st0))
   \<and> searchDocuments services_shop ''hello'' (- 1) st0 =
       (Inr [], snd (allResults services_shop ''hello'' (- 1) st0))"
proof -
  note tA = search_never_raises [where sv = services_variation_down and q = "''hello''" and limit = 5 and st = st0]
  note tB = search_never_raises [where sv = services_variation_down and q = "''price''" and limit = 5 and st = st0]
  note tC = search_never_raises [where sv = services_shop and q = "''hello''" and limit = "- 1" and st = st0]
  from tA variation_down_hello_embedding have 1: "searchDocuments services_variation_down ''hello'' 5 st0 =
     (Inr [], \<lparr>world = [], calls = [Fetch ''hello'' Query (Response False 503 ''unavailable'' None)]\<rparr>)"
    by blast
  have b: "allResults services_variation_down ''price'' 5 st0 =
     (Inl (Embedding_API_error 503 ''unavailable''), snd (allResults services_variation_down ''price'' 5 st0))"
    using variation_down_price_allResults by (simp add: prod_eq_iff)
  from tB b have 2: "searchDocuments services_variation_down ''price'' 5 st0
      = (Inr [], snd (allResults services_variation_down ''price'' 5 st0))" by blast
  from tC shop_neg_hello_responses have 3: "fst (searchDocuments services_shop ''hello'' (- 1) st0) = Inr []"
    by blast
  have c: "allResults services_shop ''hello'' (- 1) st0 =
       (Inr [], snd (allResults services_shop ''hello'' (- 1) st0))"
    using shop_neg_hello_hits by (simp add: prod_eq_iff)
  from tC c have 4: "searchDocuments services_shop ''hello'' (- 1) st0 =
       (Inr [], snd (allResults services_shop ''hello'' (- 1) st0))" by blast
  show ?thesis
    by (intro conjI) (rule variation_down_hello_embedding 1 b 2 shop_neg_hello_responses 3 c 4)+
qed

section \<open>The constants of the search\<close>

text \<open>
  C8. In every run of \<open>searchDocuments\<close> the nearest-neighbour searches are requested with
  the threshold 0.30, the first with the count \<open>limit\<close> and the others with the count 3;
  the embedding calls are for the query and then for the first two question variations at
  most, all in query mode; there are at most three of each. The keyword search, if any,
  is requested with the patterns of the key terms and the count \<open>limit\<close>. A run that is not
  left by an exception makes exactly these calls. Every keyword hit has the similarity 0.5
  and the match type keyword.
\<close>

theorem search_constants:
  "prefix (rpc_requests (calls_made st (snd (searchDocuments sv q limit st))))
      ((3 / 10, limit) # replicate (length (take 2 (generateQuestionVariations q))) (3 / 10, 3))
   \<and> list_all (\<lambda>(t, n). t = 3 / 10) (rpc_requests (calls_made st (snd (searchDocuments sv q limit st))))
   \<and> list_all (\<lambda>(t, n). n = 3) (tl (rpc_requests (calls_made st (snd (searchDocuments sv q limit st)))))
   \<and> prefix (fetch_requests (calls_made st (snd (searchDocuments sv q limit st))))
        ((q, Query) # map (\<lambda>v. (v, Query)) (take 2 (generateQuestionVariations q)))
   \<and> length (fetch_requests (calls_made st (snd (searchDocuments sv q limit st)))) \<le> 3
   \<and> length (rpc_requests (calls_made st (snd (searchDocuments sv q limit st)))) \<le> 3
   \<and> prefix (select_requests (calls_made st (snd (searchDocuments sv q limit st))))
        [(ilike_filters (extractKeyTerms q), limit)]
   \<and> (\<forall>hits st'. allResults sv q limit st = (Inr hits, st') \<longrightarrow>
         fetch_requests (calls_made st st')
           = (q, Query) # map (\<lambda>v. (v, Query)) (take 2 (generateQuestionVariations q))
         \<and> rpc_requests (calls_made st st')
           = (3 / 10, limit) # replicate (length (take 2 (generateQuestionVariations q))) (3 / 10, 3))
   \<and> list_all (\<lambda>h. similarity h = Some (1 / 2) \<and> matchType h = Keyword) (keyword_hits r)"
proof -
  let ?cs = "calls_made st (snd (searchDocuments sv q limit st))"
  let ?vs = "take 2 (generateQuestionVariations q)"
  obtain res st' where a: "allResults sv q limit st = (res, st')" by (cases "allResults sv q limit st")
  from allResults_calls [OF a] obtain cs where cs: "calls st' = calls st @ cs"
    "prefix (fetch_requests cs) ((q, Query) # map (\<lambda>v. (v, Query)) ?vs)"
    "prefix (rpc_requests cs) ((3 / 10, limit) # replicate (length ?vs) (3 / 10, 3))"
    "prefix (select_requests cs) [(ilike_filters (extractKeyTerms q), limit)]" by blast
  from cs(1) have "calls_made st st' = cs" by (rule calls_made_append)
  with a have eq: "?cs = cs" by (simp add: searchDocuments_state)
  have 1: "prefix (rpc_requests ?cs) ((3 / 10, limit) # replicate (length ?vs) (3 / 10, 3))"
    and 4: "prefix (fetch_requests ?cs) ((q, Query) # map (\<lambda>v. (v, Query)) ?vs)"
    and 7: "prefix (select_requests ?cs) [(ilike_filters (extractKeyTerms q), limit)]"
    using cs eq by simp_all
  from 1 have sub: "set (rpc_requests ?cs) \<subseteq> set ((3 / 10, limit) # replicate (length ?vs) (3 / 10, 3))"
    by (rule set_mono_prefix)
  have 2: "list_all (\<lambda>(t, n). t = 3 / 10) (rpc_requests ?cs)"
    using sub by (auto simp: list_all_iff)
  from 1 obtain zs where zs: "(3 / 10, limit) # replicate (length ?vs) (3 / 10, 3) = rpc_requests ?cs @ zs"
    by (auto simp: prefix_def)
  have 3: "list_all (\<lambda>(t, n). n = 3) (tl (rpc_requests ?cs))"
  proof (cases "rpc_requests ?cs")
    case Nil
    then show ?thesis by simp
  next
    case (Cons x xs)
    with zs have "replicate (length ?vs) (3 / 10, 3) = xs @ zs" by simp
    then have "set xs \<subseteq> set (replicate (length ?vs) (3 / 10, 3 :: int))"
      by (metis set_append Un_upper1)
    with Cons show ?thesis by (auto simp: list_all_iff)
  qed
  have 5: "length (fetch_requests ?cs) \<le> 3" using prefix_length_le [OF 4] by simp
  have 6: "length (rpc_requests ?cs) \<le> 3" using prefix_length_le [OF 1] by simp
  have 8: "\<forall>hits st'. allResults sv q limit st = (Inr hits, st') \<longrightarrow>
         fetch_requests (calls_made st st') = (q, Query) # map (\<lambda>v. (v, Query)) ?vs
         \<and> rpc_requests (calls_made st st') = (3 / 10, limit) # replicate (length ?vs) (3 / 10, 3)"
    using allResults_Inr_requests by blast
  show ?thesis
    by (intro conjI) (rule 1 2 3 4 5 6 7 8 keyword_hits_type)+
qed

theorem search_constants_witness:
  "allResults services_shop ''price'' 2 st0 =
     (Inr [tag Semantic (mk_doc ''B'' (Some (9 / 10))), tag Semantic (mk_doc ''A'' (Some (7 / 20))),
          \<lparr>id_doc = 0, content = ''K'', metadata = Map.empty, similarity = Some (1 / 2), matchType = Keyword\<rparr>,
          tag Variation (mk_doc ''B'' (Some (9 / 10))), tag Variation (mk_doc ''A'' (Some (7 / 20))),
          tag Variation (mk_doc ''B'' (Some (9 / 10))), tag Variation (mk_doc ''A'' (Some (7 / 20)))],
      snd (allResults services_shop ''price'' 2 st0))
   \<and> fetch_requests (calls_made st0 (snd (allResults services_shop ''price'' 2 st0)))
       = (''price'', Query) # map (\<lambda>v. (v, Query)) (take 2 (generateQuestionVariations ''price''))
   \<and> rpc_requests (calls_made st0 (snd (allResults services_shop ''price'' 2 st0)))
       = (3 / 10, 2) # replicate (length (take 2 (generateQuestionVariations ''price''))) (3 / 10, 3)
   \<and> rpc_requests (calls_made st0 (snd (searchDocuments services_shop ''price'' 2 st0)))
       = [(3 / 10, 2), (3 / 10, 3), (3 / 10, 3)]
   \<and> fetch_requests (calls_made st0 (snd (searchDocuments services_shop ''price'' 2 st0)))
       = [(''price'', Query), (''What is the price?'', Query), (''How much does it cost?'', Query)]
   \<and> select_requests (calls_made st0 (snd (searchDocuments services_shop ''price'' 2 st0)))
       = [(''content.ilike.%price%'', 2)]
   \<and> list_all (\<lambda>h. similarity h = Some (1 / 2) \<and> matchType h = Keyword)
        (keyword_hits (ok_response [mk_doc ''K'' None]))"
proof -
  note t = search_constants [where st = st0 and sv = services_shop and q = "''price''" and limit = 2
      and r = "ok_response [mk_doc ''K'' None]"]
  from t shop_run_2
  have 1: "fetch_requests (calls_made st0 (snd (allResults services_shop ''price'' 2 st0)))
       = (''price'', Query) # map (\<lambda>v. (v, Query)) (take 2 (generateQuestionVariations ''price''))
     \<and> rpc_requests (calls_made st0 (snd (allResults services_shop ''price'' 2 st0)))
       = (3 / 10, 2) # replicate (length (take 2 (generateQuestionVariations ''price''))) (3 / 10, 3)"
    by blast
  from t have 2: "list_all (\<lambda>h. similarity h = Some (1 / 2) \<and> matchType h = Keyword)
        (keyword_hits (ok_response [mk_doc ''K'' None]))" by (elim conjE)
  from 1 2 shop_run_2 shop_requests_2 show ?thesis by (intro conjI) (elim conjE, assumption)+
qed

section \<open>The order of the merge\<close>

text \<open>
  C9. The merged hits are the semantic hits, then the keyword hits, then the variation
  hits. Hence when a semantic hit has the highest similarity among all merged hits of its
  content, also when a keyword or a variation hit has the same, the hit kept for that
  content is a semantic hit; put the other way, a kept hit whose similarity some semantic
  hit of the same content reaches is itself one of the semantic hits. For three hits of
  one content with the similarity 0.5, one of each strategy, the semantic hit is kept.
\<close>

theorem semantic_first:
  "(allResults sv q limit st = (Inr hits, st') \<longrightarrow>
      (\<exists>sem kw var. hits = sem @ kw @ var
         \<and> list_all (\<lambda>h. matchType h = Semantic) sem
         \<and> list_all (\<lambda>h. matchType h = Keyword) kw
         \<and> list_all (\<lambda>h. matchType h = Variation) var))
   \<and> (s \<in> set sem \<and> (\<forall>y \<in> set (sem @ kw @ var). content y = content s \<longrightarrow> sim0 y \<le> sim0 s) \<longrightarrow>
        (\<exists>h \<in> set (dedupe (sem @ kw @ var)). h \<in> set sem \<and> content h = content s \<and> sim0 h = sim0 s))
   \<and> (\<forall>h \<in> set (dedupe (sem @ kw @ var)). \<forall>t \<in> set sem.
         content t = content h \<and> sim0 h \<le> sim0 t \<longrightarrow> h \<in> set sem)
   \<and> dedupe [mk_hit ''A'' (Some (1 / 2)) Semantic, mk_hit ''A'' (Some (1 / 2)) Keyword,
              mk_hit ''A'' (Some (1 / 2)) Variation]
      = [mk_hit ''A'' (Some (1 / 2)) Semantic]"
proof (intro conjI impI ballI)
  assume a: "allResults sv q limit st = (Inr hits, st')"
  from allResults_Inr [OF a] obtain rs vrs where
    h: "hits = semantic_hits rs
            @ concat (map keyword_hits (select_responses (calls_made st st')))
            @ concat (map variation_hits vrs)"
    by blast
  have k: "list_all (\<lambda>h. matchType h = Keyword) (concat (map keyword_hits ks))" for ks
    using keyword_hits_type by (auto simp: list_all_iff)
  have v: "list_all (\<lambda>h. matchType h = Variation) (concat (map variation_hits vs))" for vs
    using variation_hits_type by (auto simp: list_all_iff)
  from h semantic_hits_type k v
  show "\<exists>sem kw var. hits = sem @ kw @ var
         \<and> list_all (\<lambda>h. matchType h = Semantic) sem
         \<and> list_all (\<lambda>h. matchType h = Keyword) kw
         \<and> list_all (\<lambda>h. matchType h = Variation) var"
    by blast
next
  let ?all = "sem @ kw @ var"
  assume p: "s \<in> set sem \<and> (\<forall>y \<in> set ?all. content y = content s \<longrightarrow> sim0 y \<le> sim0 s)"
  then have "content s \<in> content ` set ?all" by auto
  then have "content s \<in> content ` set (dedupe ?all)" by (simp only: dedupe_covers)
  then obtain h where h: "h \<in> set (dedupe ?all)" "content h = content s" by auto
  note k = dedupe_kept [OF h(1)]
  from kept_for_mem [OF k] p h(2) have le: "sim0 h \<le> sim0 s" by simp
  from kept_for_max [OF k, of s] p h(2) have ge: "sim0 s \<le> sim0 h" by simp
  from kept_in_first_part [OF k _ _ le] p h(2) have "h \<in> set sem" by simp
  with h le ge show "\<exists>h \<in> set (dedupe ?all). h \<in> set sem \<and> content h = content s \<and> sim0 h = sim0 s"
    by auto
next
  fix h t
  assume "h \<in> set (dedupe (sem @ kw @ var))" "t \<in> set sem" "content t = content h \<and> sim0 h \<le> sim0 t"
  then show "h \<in> set sem" using kept_in_first_part [OF dedupe_kept] by blast
next
  show "dedupe [mk_hit ''A'' (Some (1 / 2)) Semantic, mk_hit ''A'' (Some (1 / 2)) Keyword,
              mk_hit ''A'' (Some (1 / 2)) Variation]
      = [mk_hit ''A'' (Some (1 / 2)) Semantic]" by (rule tie_example)
qed

theorem semantic_first_witness:
  "allResults services_tie ''hello'' 5 st0 =
     (Inr [tag Semantic (mk_doc ''A'' (Some (1 / 2))),
           \<lparr>id_doc = 0, content = ''A'', metadata = Map.empty, similarity = Some (1 / 2), matchType = Keyword\<rparr>],
      snd (allResults services_tie ''hello'' 5 st0))
   \<and> (\<exists>sem kw var.
         [tag Semantic (mk_doc ''A'' (Some (1 / 2))),
          \<lparr>id_doc = 0, content = ''A'', metadata = Map.empty, similarity = Some (1 / 2), matchType = Keyword\<rparr>]
           = sem @ kw @ var
         \<and> list_all (\<lambda>h. matchType h = Semantic) sem
         \<and> list_all (\<lambda>h. matchType h = Keyword) kw
         \<and> list_all (\<lambda>h. matchType h = Variation) var)
   \<and> tag Semantic (mk_doc ''A'' (Some (1 / 2))) \<in> set [tag Semantic (mk_doc ''A'' (Some (1 / 2)))]
   \<and> tag Semantic (mk_doc ''A'' (Some (1 / 2)))
        \<in> set (dedupe ([tag Semantic (mk_doc ''A'' (Some (1 / 2)))]
         @ [\<lparr>id_doc = 0, content = ''A'', metadata = Map.empty, similarity = Some (1 / 2), matchType = Keyword\<rparr>]
         @ []))
   \<and> list_all (\<lambda>y. sim0 y \<le> sim0 (tag Semantic (mk_doc ''A'' (Some (1 / 2)))))
        ([tag Semantic (mk_doc ''A'' (Some (1 / 2)))]
         @ [\<lparr>id_doc = 0, content = ''A'', metadata = Map.empty, similarity = Some (1 / 2), matchType = Keyword\<rparr>]
         @ [])
   \<and> (\<exists>h \<in> set (dedupe ([tag Semantic (mk_doc ''A'' (Some (1 / 2)))]
         @ [\<lparr>id_doc = 0, content = ''A'', metadata = Map.empty, similarity = Some (1 / 2), matchType = Keyword\<rparr>]
         @ [])).
        h \<in> set [tag Semantic (mk_doc ''A'' (Some (1 / 2)))]
        \<and> content h = content (tag Semantic (mk_doc ''A'' (Some (1 / 2))))
        \<and> sim0 h = sim0 (tag Semantic (mk_doc ''A'' (Some (1 / 2)))))"
proof -
  let ?s = "tag Semantic (mk_doc ''A'' (Some (1 / 2)))"
  let ?k = "\<lparr>id_doc = 0, content = ''A'', metadata = Map.empty, similarity = Some (1 / 2), matchType = Keyword\<rparr>"
  let ?st = "snd (allResults services_tie ''hello'' 5 st0)"
  note t = semantic_first [where sv = services_tie and q = "''hello''" and limit = 5 and st = st0
      and hits = "[?s, ?k]" and st' = ?st and s = ?s and sem = "[?s]" and kw = "[?k]" and var = "[]"]
  have run: "allResults services_tie ''hello'' 5 st0 = (Inr [?s, ?k], ?st)"
    using tie_hits by (simp add: prod_eq_iff)
  have mem: "?s \<in> set [?s]" by simp
  have kept: "?s \<in> set (dedupe ([?s] @ [?k] @ []))"
    by (simp add: dedupe_def dedupe_step_def tag_def mk_doc_def sim0_def)
  have le: "list_all (\<lambda>y. sim0 y \<le> sim0 ?s) ([?s] @ [?k] @ [])"
    by (simp add: sim0_def tag_def mk_doc_def)
  then have le': "\<forall>y \<in> set ([?s] @ [?k] @ []). content y = content ?s \<longrightarrow> sim0 y \<le> sim0 ?s"
    by (simp only: list_all_iff) blast
  from t run have 1: "\<exists>sem kw var. [?s, ?k] = sem @ kw @ var
         \<and> list_all (\<lambda>h. matchType h = Semantic) sem
         \<and> list_all (\<lambda>h. matchType h = Keyword) kw
         \<and> list_all (\<lambda>h. matchType h = Variation) var"
    by blast
  from t mem le' have 2: "\<exists>h \<in> set (dedupe ([?s] @ [?k] @ [])).
        h \<in> set [?s] \<and> content h = content ?s \<and> sim0 h = sim0 ?s"
    by blast
  show ?thesis
    by (intro conjI) (rule run 1 mem kept le 2)+
qed

section \<open>Ingestion: properties\<close>








lemma addDocument_null: "addDocument sv cont None st = (False, st)"
  by (simp add: addDocument_def addDocument_try_def)

lemma addDocument_eq:
  "addDocument sv cont (Some md) st =
     (case insert_chunks sv md (md ''categoryId'') (createDocuments sv 1000 200 cont) st of
        (Inl e, st') \<Rightarrow> (False, st')
      | (Inr u, st') \<Rightarrow> (True, st'))"
  by (simp add: addDocument_def addDocument_try_def Let_def split: prod.splits sum.splits)
















text \<open>
  C10, amended. For every metadata argument that is not null: when the splitter yields no
  chunks, \<open>addDocument\<close> returns true in the state it started in: it made no call,
  neither for an embedding nor to the store, and the world outside is as it was. For the
  argument \<open>null\<close> it returns false, also without a call.
\<close>

theorem addDocument_no_chunks:
  "(createDocuments sv 1000 200 cont = [] \<longrightarrow>
      addDocument sv cont (Some md) st = (True, st)
      \<and> calls_made st (snd (addDocument sv cont (Some md) st)) = []
      \<and> world (snd (addDocument sv cont (Some md) st)) = world st)
   \<and> addDocument sv cont None st = (False, st)
   \<and> calls_made st (snd (addDocument sv cont None st)) = []"
  by (simp add: addDocument_eq addDocument_null calls_made_def)

theorem addDocument_no_chunks_witness:
  "createDocuments services_ingest 1000 200 [] = []
   \<and> addDocument services_ingest [] (Some metadata_c1) st0 = (True, st0)
   \<and> calls_made st0 (snd (addDocument services_ingest [] (Some metadata_c1) st0)) = []
   \<and> world (snd (addDocument services_ingest [] (Some metadata_c1) st0)) = world st0
   \<and> addDocument services_ingest [] None st0 = (False, st0)"
proof -
  have c: "createDocuments services_ingest 1000 200 [] = []"
    by (simp add: services_ingest_def example_services_def)
  note t = addDocument_no_chunks [where sv = services_ingest and cont = "[]" and md = metadata_c1
      and st = st0]
  from t [THEN conjunct1, THEN mp, OF c] t [THEN conjunct2, THEN conjunct1] c
  show ?thesis by (intro conjI) (elim conjE, assumption)+
qed

text \<open>
  The claim as it is stated, for every metadata argument, fails for \<open>null\<close>: the splitter
  yields no chunks for the empty text, and \<open>addDocument\<close> returns false.
\<close>

theorem null_metadata_counterexample:
  "createDocuments services_ingest 1000 200 [] = []
   \<and> addDocument services_ingest [] None st0 = (False, st0)
   \<and> fst (addDocument services_ingest [] None st0) \<noteq> True"
  by (simp add: addDocument_null services_ingest_def example_services_def)

end
